theory Spec2Isabelle
  imports Main
begin

section \<open>Data model (src/types.ts)\<close>

datatype Color = RED | BLACK

datatype PieceType = GENERAL | ADVISOR | ELEPHANT | HORSE | ROOK | CANNON | SOLDIER

text \<open>
  \<open>interface Piece { type; color; id? }\<close>. The field names \<open>type\<close>, \<open>color\<close> and
  \<open>id\<close> are prefixed with \<open>p\<close>; the optional \<open>id\<close> is a \<open>string option\<close>.
\<close>

record Piece =
  ptype :: PieceType
  pcolor :: Color
  pid :: "string option"

text \<open>
  \<open>interface Position { x; y }\<close>: column and row, JavaScript numbers that the engine
  only ever fills with integers. \<open>interface Move { from; to; score? }\<close>: the optional
  \<open>score\<close> is never written nor read by the engine and is left out.
\<close>

record Position =
  px :: int
  py :: int

record Move =
  mfrom :: Position
  mto :: Position

datatype GameStatus = PLAYING | RED_WIN | BLACK_WIN | DRAW

text \<open>
  \<open>type BoardState = (Piece | null)[][]\<close>: an array of rows, indexed \<open>board[y][x]\<close>.
  \<open>null\<close> and \<open>undefined\<close> (the value of a read past the end of a row) are both
  falsy and the code only ever tests a cell for truthiness, so both are \<open>None\<close>.
\<close>

type_synonym BoardState = "Piece option list list"

text \<open>
  What a JavaScript run can do other than return a value of the modelled types:
  \<open>TypeError\<close> is thrown when a property of \<open>undefined\<close> is read or written, which
  happens at \<open>board[y][x]\<close> when row \<open>y\<close> does not exist; \<open>NotInModel\<close> stands for a
  run that goes on with a value the types above do not hold (the cast \<open>as PieceType\<close>
  of a letter that is no piece code, or a write at a negative column, which JavaScript
  stores as a property beside the array elements).
\<close>

datatype error = TypeError | NotInModel

definition bindE :: "error + 'a \<Rightarrow> ('a \<Rightarrow> error + 'b) \<Rightarrow> error + 'b" where
  "bindE m f = (case m of Inl e \<Rightarrow> Inl e | Inr v \<Rightarrow> f v)"

text \<open>A \<open>for\<close> loop over a list of indices whose body may throw, threading the loop's variables.\<close>

fun forEachE :: "('a \<Rightarrow> 's \<Rightarrow> error + 's) \<Rightarrow> 'a list \<Rightarrow> 's \<Rightarrow> error + 's" where
  "forEachE body [] s = Inr s"
| "forEachE body (a # as) s = bindE (body a s) (forEachE body as)"

text \<open>The shape every board built by \<open>fenToBoard\<close> has: 10 rows of 9 cells.\<close>

definition wf_board :: "BoardState \<Rightarrow> bool" where
  "wf_board board \<longleftrightarrow> length board = 10 \<and> list_all (\<lambda>row. length row = 9) board"

section \<open>Helpers and cell access (src/utils/xiangqi.ts)\<close>

definition isPosEqual :: "Position \<Rightarrow> Position \<Rightarrow> bool" where
  "isPosEqual p1 p2 \<longleftrightarrow> px p1 = px p2 \<and> py p1 = py p2"

definition isValidPos :: "Position \<Rightarrow> bool" where
  "isValidPos p \<longleftrightarrow> px p \<ge> 0 \<and> px p \<le> 8 \<and> py p \<ge> 0 \<and> py p \<le> 9"

text \<open>
  The expression \<open>board[y][x]\<close>: a missing row makes the second index throw, a column
  outside the row reads \<open>undefined\<close>.
\<close>

definition cell_at :: "BoardState \<Rightarrow> int \<Rightarrow> int \<Rightarrow> error + Piece option" where
  "cell_at board y x =
     (if 0 \<le> y \<and> y < int (length board)
      then (let row = board ! nat y
            in Inr (if 0 \<le> x \<and> x < int (length row) then row ! nat x else None))
      else Inl TypeError)"

definition getPieceAt :: "BoardState \<Rightarrow> Position \<Rightarrow> error + Piece option" where
  "getPieceAt board pos =
     (if \<not> isValidPos pos then Inr None else cell_at board (py pos) (px pos))"

section \<open>Movement logic\<close>

text \<open>The body of each \<open>for\<close> loop of \<open>countPiecesBetween\<close>, over the indices strictly between.\<close>

fun countLoop :: "(int \<Rightarrow> error + Piece option) \<Rightarrow> int list \<Rightarrow> nat \<Rightarrow> error + nat" where
  "countLoop rd [] count = Inr count"
| "countLoop rd (i # is) count =
     bindE (rd i) (\<lambda>c. countLoop rd is (if c \<noteq> None then count + 1 else count))"

definition countPiecesBetween :: "BoardState \<Rightarrow> Position \<Rightarrow> Position \<Rightarrow> error + nat" where
  "countPiecesBetween board p1 p2 =
     (if px p1 = px p2 then
        countLoop (\<lambda>y. cell_at board y (px p1)) [min (py p1) (py p2) + 1 ..  max (py p1) (py p2) - 1] 0
      else if py p1 = py p2 then
        countLoop (\<lambda>x. cell_at board (py p1) x) [min (px p1) (px p2) + 1 ..  max (px p1) (px p2) - 1] 0
      else Inr 0)"

text \<open>
  The \<open>switch (piece.type)\<close> of \<open>isValidMove\<close>. \<open>dx / 2\<close> and \<open>dy / 2\<close> are only
  evaluated where the absolute value is 2, so the quotient is the integer \<open>div\<close>.
\<close>

definition pieceRule ::
  "BoardState \<Rightarrow> Piece \<Rightarrow> Piece option \<Rightarrow> Position \<Rightarrow> Position \<Rightarrow> error + bool" where
  "pieceRule board piece target from to =
     (let dx = px to - px from;
          dy = py to - py from;
          adx = \<bar>dx\<bar>;
          ady = \<bar>dy\<bar>
      in case ptype piece of
        GENERAL \<Rightarrow>
          if px to < 3 \<or> px to > 5 then Inr False
          else if pcolor piece = BLACK \<and> py to > 2 then Inr False
          else if pcolor piece = RED \<and> py to < 7 then Inr False
          else Inr (adx + ady = 1)
      | ADVISOR \<Rightarrow>
          if px to < 3 \<or> px to > 5 then Inr False
          else if pcolor piece = BLACK \<and> py to > 2 then Inr False
          else if pcolor piece = RED \<and> py to < 7 then Inr False
          else Inr (adx = 1 \<and> ady = 1)
      | ELEPHANT \<Rightarrow>
          if pcolor piece = BLACK \<and> py to > 4 then Inr False
          else if pcolor piece = RED \<and> py to < 5 then Inr False
          else if adx \<noteq> 2 \<or> ady \<noteq> 2 then Inr False
          else bindE (getPieceAt board \<lparr>px = px from + dx div 2, py = py from + dy div 2\<rparr>)
                 (\<lambda>eye. if eye \<noteq> None then Inr False else Inr True)
      | HORSE \<Rightarrow>
          if \<not> ((adx = 1 \<and> ady = 2) \<or> (adx = 2 \<and> ady = 1)) then Inr False
          else let legPos = \<lparr>px = (if adx = 2 then px from + dx div 2 else px from),
                              py = (if ady = 2 then py from + dy div 2 else py from)\<rparr>
               in bindE (getPieceAt board legPos)
                    (\<lambda>leg. if leg \<noteq> None then Inr False else Inr True)
      | ROOK \<Rightarrow>
          if px from \<noteq> px to \<and> py from \<noteq> py to then Inr False
          else bindE (countPiecesBetween board from to) (\<lambda>cnt. Inr (cnt = 0))
      | CANNON \<Rightarrow>
          if px from \<noteq> px to \<and> py from \<noteq> py to then Inr False
          else bindE (countPiecesBetween board from to)
                 (\<lambda>cnt. if target \<noteq> None then Inr (cnt = 1) else Inr (cnt = 0))
      | SOLDIER \<Rightarrow>
          let forward = (if pcolor piece = RED then - 1 else 1 :: int) in
          if pcolor piece = RED \<and> dy > 0 then Inr False
          else if pcolor piece = BLACK \<and> dy < 0 then Inr False
          else let crossedRiver = (if pcolor piece = RED then py from \<le> 4 else py from \<ge> 5)
               in if \<not> crossedRiver then Inr (dx = 0 \<and> dy = forward)
                  else Inr (\<bar>dx\<bar> + \<bar>dy\<bar> = 1))"

definition isValidMove :: "BoardState \<Rightarrow> Move \<Rightarrow> Color \<Rightarrow> error + bool" where
  "isValidMove board move turnColor =
     (let from = mfrom move; to = mto move in
      bindE (getPieceAt board from) (\<lambda>piece.
      bindE (getPieceAt board to) (\<lambda>target.
        case piece of
          None \<Rightarrow> Inr False
        | Some pc \<Rightarrow>
            if pcolor pc \<noteq> turnColor then Inr False
            else if \<not> isValidPos to then Inr False
            else if px from = px to \<and> py from = py to then Inr False
            else if (case target of None \<Rightarrow> False | Some t \<Rightarrow> pcolor t = turnColor) then Inr False
            else pieceRule board pc target from to)))"

text \<open>
  The two nested loops \<open>for y in 0..9, for x in 0..8\<close>, which four functions share,
  as the list of their index pairs \<open>(x, y)\<close> in the order the loops visit them.
\<close>

definition squares :: "(int \<times> int) list" where
  "squares = concat (map (\<lambda>y. map (\<lambda>x. (x, y)) [0..8]) [0..9])"

text \<open>A loop that returns from the function at the first index where its body finds a value.\<close>

fun findFirstE :: "('a \<Rightarrow> error + 'b option) \<Rightarrow> 'a list \<Rightarrow> error + 'b option" where
  "findFirstE f [] = Inr None"
| "findFirstE f (a # as) =
     bindE (f a) (\<lambda>r. case r of Some b \<Rightarrow> Inr (Some b) | None \<Rightarrow> findFirstE f as)"

text \<open>
  The assignment \<open>row[x] = v\<close>: inside the row it replaces the cell, past the end it
  lengthens the array (the holes read \<open>undefined\<close>), and at a negative \<open>x\<close> JavaScript
  adds a property that is no array element.
\<close>

definition rowWrite :: "Piece option list \<Rightarrow> int \<Rightarrow> Piece option \<Rightarrow> error + Piece option list" where
  "rowWrite row x v =
     (if x < 0 then Inl NotInModel
      else if x < int (length row) then Inr (row[nat x := v])
      else Inr (row @ replicate (nat x - length row) None @ [v]))"

text \<open>The assignment \<open>board[y][x] = v\<close>.\<close>

definition cellWrite :: "BoardState \<Rightarrow> int \<Rightarrow> int \<Rightarrow> Piece option \<Rightarrow> error + BoardState" where
  "cellWrite board y x v =
     (if 0 \<le> y \<and> y < int (length board)
      then bindE (rowWrite (board ! nat y) x v) (\<lambda>row. Inr (board[nat y := row]))
      else Inl TypeError)"

text \<open>
  \<open>simulateMove\<close> on board values. \<open>board.map(row => [...row])\<close> copies every row; on
  values the copy is the board itself (the store model below keeps the two apart).
\<close>

definition simulateMove :: "BoardState \<Rightarrow> Move \<Rightarrow> error + BoardState" where
  "simulateMove board move =
     (let newBoard = map (\<lambda>row. row) board in
      bindE (cell_at newBoard (py (mfrom move)) (px (mfrom move))) (\<lambda>v.
      bindE (cellWrite newBoard (py (mto move)) (px (mto move)) v) (\<lambda>newBoard.
      cellWrite newBoard (py (mfrom move)) (px (mfrom move)) None)))"

definition findGeneral :: "BoardState \<Rightarrow> Color \<Rightarrow> error + Position option" where
  "findGeneral board color =
     findFirstE (\<lambda>(x, y). bindE (cell_at board y x) (\<lambda>p.
        case p of
          None \<Rightarrow> Inr None
        | Some pc \<Rightarrow>
            if ptype pc = GENERAL \<and> pcolor pc = color then Inr (Some \<lparr>px = x, py = y\<rparr>)
            else Inr None)) squares"

definition areGeneralsFacing :: "BoardState \<Rightarrow> error + bool" where
  "areGeneralsFacing board =
     bindE (findGeneral board RED) (\<lambda>rGen.
     bindE (findGeneral board BLACK) (\<lambda>bGen.
       case (rGen, bGen) of
         (Some r, Some b) \<Rightarrow>
           if px r = px b then
             bindE (countPiecesBetween board r b) (\<lambda>cnt. Inr (cnt = 0))
           else Inr False
       | _ \<Rightarrow> Inr False))"

definition isCheck :: "BoardState \<Rightarrow> Color \<Rightarrow> error + bool" where
  "isCheck board color =
     bindE (findGeneral board color) (\<lambda>g.
       case g of
         None \<Rightarrow> Inr True
       | Some generalPos \<Rightarrow>
           let enemyColor = (if color = RED then BLACK else RED) in
           bindE (findFirstE (\<lambda>(x, y). bindE (cell_at board y x) (\<lambda>p.
                    case p of
                      None \<Rightarrow> Inr None
                    | Some pc \<Rightarrow>
                        if pcolor pc = enemyColor then
                          bindE (isValidMove board \<lparr>mfrom = \<lparr>px = x, py = y\<rparr>, mto = generalPos\<rparr> enemyColor)
                            (\<lambda>ok. Inr (if ok then Some () else None))
                        else Inr None)) squares)
             (\<lambda>attacked. Inr (attacked \<noteq> None)))"

text \<open>
  The body of the two inner loops of \<open>getValidMoves\<close>, for one source square and one
  target square. \<open>&&\<close> does not evaluate \<open>areGeneralsFacing\<close> when \<open>isCheck\<close> is true.
\<close>

definition tryMove :: "BoardState \<Rightarrow> Color \<Rightarrow> int \<times> int \<Rightarrow> int \<times> int \<Rightarrow> Move list \<Rightarrow> error + Move list" where
  "tryMove board turn src dst moves =
     (let move = \<lparr>mfrom = \<lparr>px = fst src, py = snd src\<rparr>, mto = \<lparr>px = fst dst, py = snd dst\<rparr>\<rparr> in
      bindE (isValidMove board move turn) (\<lambda>ok.
        if ok then
          bindE (simulateMove board move) (\<lambda>tempBoard.
          bindE (isCheck tempBoard turn) (\<lambda>chk.
            if \<not> chk then
              bindE (areGeneralsFacing tempBoard) (\<lambda>facing.
                if \<not> facing then Inr (moves @ [move]) else Inr moves)
            else Inr moves))
        else Inr moves))"

definition getValidMoves :: "BoardState \<Rightarrow> Color \<Rightarrow> error + Move list" where
  "getValidMoves board turn =
     forEachE (\<lambda>src moves.
       bindE (cell_at board (snd src) (fst src)) (\<lambda>piece.
         case piece of
           None \<Rightarrow> Inr moves
         | Some pc \<Rightarrow>
             if pcolor pc = turn then forEachE (tryMove board turn src) squares moves
             else Inr moves)) squares []"

definition getGameStatus :: "BoardState \<Rightarrow> Color \<Rightarrow> error + GameStatus" where
  "getGameStatus board turn =
     bindE (getValidMoves board turn) (\<lambda>moves.
       if length moves = 0 then Inr (if turn = RED then BLACK_WIN else RED_WIN)
       else Inr PLAYING)"

section \<open>FEN converter\<close>

text \<open>The string value of each member of \<open>enum PieceType\<close>.\<close>

definition typeChar :: "PieceType \<Rightarrow> char" where
  "typeChar t = (case t of GENERAL \<Rightarrow> CHR ''k'' | ADVISOR \<Rightarrow> CHR ''a'' | ELEPHANT \<Rightarrow> CHR ''b''
     | HORSE \<Rightarrow> CHR ''n'' | ROOK \<Rightarrow> CHR ''r'' | CANNON \<Rightarrow> CHR ''c'' | SOLDIER \<Rightarrow> CHR ''p'')"

text \<open>
  The cast \<open>char.toLowerCase() as PieceType\<close>: the letters that are the value of a
  member of the enum, and \<open>None\<close> for every other character.
\<close>

definition charToType :: "char \<Rightarrow> PieceType option" where
  "charToType c =
     (if c = CHR ''k'' then Some GENERAL else if c = CHR ''a'' then Some ADVISOR
      else if c = CHR ''b'' then Some ELEPHANT else if c = CHR ''n'' then Some HORSE
      else if c = CHR ''r'' then Some ROOK else if c = CHR ''c'' then Some CANNON
      else if c = CHR ''p'' then Some SOLDIER else None)"

text \<open>\<open>toUpperCase\<close> and \<open>toLowerCase\<close> on one ASCII character (a \<open>char\<close> is a byte).\<close>

definition toUpperCase :: "char \<Rightarrow> char" where
  "toUpperCase c =
     (let n = (of_char c :: nat) in if 97 \<le> n \<and> n \<le> 122 then char_of (n - 32) else c)"

definition toLowerCase :: "char \<Rightarrow> char" where
  "toLowerCase c =
     (let n = (of_char c :: nat) in if 65 \<le> n \<and> n \<le> 90 then char_of (n + 32) else c)"

text \<open>The test \<open>/\\d/.test(char)\<close> and \<open>parseInt(char)\<close> on a character that passed it.\<close>

definition isDigit :: "char \<Rightarrow> bool" where
  "isDigit c \<longleftrightarrow> 48 \<le> (of_char c :: nat) \<and> (of_char c :: nat) \<le> 57"

definition parseInt :: "char \<Rightarrow> int" where
  "parseInt c = int (of_char c) - 48"

text \<open>The decimal rendering of a non-negative integer, as \<open>fen += emptyCount\<close> appends it.\<close>

fun showNat :: "nat \<Rightarrow> string" where
  "showNat n =
     (if n < 10 then [char_of (48 + n)] else showNat (n div 10) @ [char_of (48 + n mod 10)])"

text \<open>\<open>String.prototype.split\<close> with a one-character separator; the result is never empty.\<close>

fun split :: "char \<Rightarrow> string \<Rightarrow> string list" where
  "split sep [] = [[]]"
| "split sep (c # cs) =
     (if c = sep then [] # split sep cs
      else (case split sep cs of [] \<Rightarrow> [[c]] | r # rs \<Rightarrow> (c # r) # rs))"

text \<open>The body of the inner loop of \<open>boardToFen\<close>; the loop variables are \<open>fen\<close> and \<open>emptyCount\<close>.\<close>

definition fenCell :: "BoardState \<Rightarrow> int \<Rightarrow> int \<Rightarrow> string \<times> nat \<Rightarrow> error + string \<times> nat" where
  "fenCell board y x st =
     (case st of (fen, emptyCount) \<Rightarrow>
        bindE (cell_at board y x) (\<lambda>p.
          case p of
            None \<Rightarrow> Inr (fen, emptyCount + 1)
          | Some pc \<Rightarrow>
              let (fen, emptyCount) =
                    (if emptyCount > 0 then (fen @ showNat emptyCount, 0) else (fen, emptyCount));
                  char = typeChar (ptype pc)
              in Inr (fen @ [if pcolor pc = RED then toUpperCase char else toLowerCase char],
                      emptyCount)))"

definition fenRow :: "BoardState \<Rightarrow> int \<Rightarrow> string \<Rightarrow> error + string" where
  "fenRow board y fen =
     bindE (forEachE (fenCell board y) [0..8] (fen, 0)) (\<lambda>(fen, emptyCount).
       let fen = (if emptyCount > 0 then fen @ showNat emptyCount else fen)
       in Inr (if y < 9 then fen @ ''/'' else fen))"

definition boardToFen :: "BoardState \<Rightarrow> Color \<Rightarrow> error + string" where
  "boardToFen board turn =
     bindE (forEachE (fenRow board) [0..9] []) (\<lambda>fen.
       Inr (fen @ '' '' @ [if turn = RED then CHR ''w'' else CHR ''b''] @ '' - - 0 1''))"

text \<open>
  The body of \<open>for (const char of rowStr)\<close> in \<open>fenToBoard\<close>; the loop variables are
  the board, \<open>x\<close> and the number \<open>k\<close> of calls of \<open>Math.random()\<close> made so far. The
  parameter \<open>rnd\<close> gives the text of the result of each call, in order.
\<close>

definition fenChar ::
  "(nat \<Rightarrow> string) \<Rightarrow> nat \<Rightarrow> char \<Rightarrow> BoardState \<times> int \<times> nat \<Rightarrow> error + BoardState \<times> int \<times> nat" where
  "fenChar rnd y char st =
     (case st of (board, x, k) \<Rightarrow>
        if isDigit char then Inr (board, x + parseInt char, k)
        else
          let color = (if char = toUpperCase char then RED else BLACK) in
          if x < 9 then
            if \<not> y < length board then Inl TypeError
            else case charToType (toLowerCase char) of
                   None \<Rightarrow> Inl NotInModel
                 | Some type \<Rightarrow>
                     bindE (cellWrite board (int y) x
                              (Some \<lparr>ptype = type, pcolor = color,
                                     pid = Some (showNat (nat x) @ ''-'' @ showNat y @ ''-'' @ rnd k)\<rparr>))
                       (\<lambda>board. Inr (board, x + 1, k + 1))
          else Inr (board, x, k))"

definition fenToBoard :: "(nat \<Rightarrow> string) \<Rightarrow> string \<Rightarrow> error + BoardState" where
  "fenToBoard rnd fen =
     (let board = replicate 10 (replicate 9 None) in
      case split (CHR '' '') fen of
        [] \<Rightarrow> Inl TypeError
      | placement # _ \<Rightarrow>
          let rows = split (CHR ''/'') placement in
          bindE (forEachE (\<lambda>(y, rowStr) (board, k).
                   bindE (forEachE (fenChar rnd y) rowStr (board, 0, k))
                     (\<lambda>(board, x, k). Inr (board, k)))
                 (enumerate 0 rows) (board, 0))
            (\<lambda>(board, k). Inr board))"

definition createInitialBoard :: "(nat \<Rightarrow> string) \<Rightarrow> error + BoardState" where
  "createInitialBoard rnd =
     fenToBoard rnd ''rnbakabnr/9/1c5c1/p1p1p1p1p/9/9/P1P1P1P1P/1C5C1/9/RNBAKABNR''"

section \<open>Search (src/utils/ai.ts)\<close>

definition PIECE_VALUES :: "PieceType \<Rightarrow> int" where
  "PIECE_VALUES t = (case t of GENERAL \<Rightarrow> 10000 | ROOK \<Rightarrow> 90 | CANNON \<Rightarrow> 45 | HORSE \<Rightarrow> 40
     | ELEPHANT \<Rightarrow> 20 | ADVISOR \<Rightarrow> 20 | SOLDIER \<Rightarrow> 10)"

definition getPositionBonus :: "Piece \<Rightarrow> int \<Rightarrow> int \<Rightarrow> int" where
  "getPositionBonus piece x y =
     (if ptype piece = SOLDIER \<and> pcolor piece = BLACK \<and> y > 4 then 20
      else if ptype piece = SOLDIER \<and> pcolor piece = RED \<and> y < 5 then 20
      else if (ptype piece = CANNON \<or> ptype piece = HORSE) \<and> x \<ge> 3 \<and> x \<le> 5 then 5
      else 0)"

definition evaluateBoard :: "BoardState \<Rightarrow> error + int" where
  "evaluateBoard board =
     forEachE (\<lambda>(x, y) score.
       bindE (cell_at board y x) (\<lambda>p.
         case p of
           None \<Rightarrow> Inr score
         | Some pc \<Rightarrow>
             let val = PIECE_VALUES (ptype pc) + getPositionBonus pc x y
             in Inr (score + (if pcolor pc = RED then val else - val)))) squares 0"

text \<open>The numbers of the search: integers, \<open>-Infinity\<close> and \<open>Infinity\<close>.\<close>

datatype jsnum = NegInfinity | Finite int | Infinity

fun lessN :: "jsnum \<Rightarrow> jsnum \<Rightarrow> bool" where
  "lessN (Finite a) (Finite b) = (a < b)"
| "lessN NegInfinity b = (b \<noteq> NegInfinity)"
| "lessN a Infinity = (a \<noteq> Infinity)"
| "lessN a b = False"

definition leN :: "jsnum \<Rightarrow> jsnum \<Rightarrow> bool" where
  "leN a b \<longleftrightarrow> a = b \<or> lessN a b"

definition maxN :: "jsnum \<Rightarrow> jsnum \<Rightarrow> jsnum" where
  "maxN a b = (if lessN a b then b else a)"

definition minN :: "jsnum \<Rightarrow> jsnum \<Rightarrow> jsnum" where
  "minN a b = (if lessN b a then b else a)"

text \<open>
  The comparator of \<open>validMoves.sort\<close> orders by the value of the captured piece,
  highest first; \<open>Array.prototype.sort\<close> is stable, so moves of equal value keep
  their order.
\<close>

definition captureValue :: "BoardState \<Rightarrow> Move \<Rightarrow> error + int" where
  "captureValue board m =
     bindE (getPieceAt board (mto m)) (\<lambda>target.
       Inr (case target of None \<Rightarrow> 0 | Some t \<Rightarrow> PIECE_VALUES (ptype t)))"

fun mapE :: "('a \<Rightarrow> error + 'b) \<Rightarrow> 'a list \<Rightarrow> error + 'b list" where
  "mapE f [] = Inr []"
| "mapE f (a # as) = bindE (f a) (\<lambda>b. bindE (mapE f as) (\<lambda>bs. Inr (b # bs)))"

definition sortMoves :: "BoardState \<Rightarrow> Move list \<Rightarrow> error + Move list" where
  "sortMoves board validMoves =
     bindE (mapE (captureValue board) validMoves) (\<lambda>vals.
       Inr (map snd (sort_key (\<lambda>(val, m). - val) (zip vals validMoves))))"

text \<open>
  The two \<open>for (const move of validMoves)\<close> loops of \<open>minimax\<close>, with \<open>break\<close> as the
  early exit. \<open>rec\<close> is the recursive call one ply deeper; the loop variables are
  \<open>maxEval\<close> (or \<open>minEval\<close>), \<open>bestMove\<close> and \<open>alpha\<close> (or \<open>beta\<close>).
\<close>

fun maxLoop ::
  "(BoardState \<Rightarrow> jsnum \<Rightarrow> jsnum \<Rightarrow> error + jsnum \<times> Move option) \<Rightarrow> BoardState \<Rightarrow> jsnum \<Rightarrow>
   Move list \<Rightarrow> jsnum \<times> Move option \<times> jsnum \<Rightarrow> error + jsnum \<times> Move option" where
  "maxLoop rec board beta [] (maxEval, bestMove, alpha) = Inr (maxEval, bestMove)"
| "maxLoop rec board beta (move # rest) (maxEval, bestMove, alpha) =
     bindE (simulateMove board move) (\<lambda>newBoard.
     bindE (rec newBoard alpha beta) (\<lambda>r.
       let evaluation = fst r;
           (maxEval, bestMove) =
             (if lessN maxEval evaluation then (evaluation, Some move) else (maxEval, bestMove));
           alpha = maxN alpha evaluation
       in if leN beta alpha then Inr (maxEval, bestMove)
          else maxLoop rec board beta rest (maxEval, bestMove, alpha)))"

fun minLoop ::
  "(BoardState \<Rightarrow> jsnum \<Rightarrow> jsnum \<Rightarrow> error + jsnum \<times> Move option) \<Rightarrow> BoardState \<Rightarrow> jsnum \<Rightarrow>
   Move list \<Rightarrow> jsnum \<times> Move option \<times> jsnum \<Rightarrow> error + jsnum \<times> Move option" where
  "minLoop rec board alpha [] (minEval, bestMove, beta) = Inr (minEval, bestMove)"
| "minLoop rec board alpha (move # rest) (minEval, bestMove, beta) =
     bindE (simulateMove board move) (\<lambda>newBoard.
     bindE (rec newBoard alpha beta) (\<lambda>r.
       let evaluation = fst r;
           (minEval, bestMove) =
             (if lessN evaluation minEval then (evaluation, Some move) else (minEval, bestMove));
           beta = minN beta evaluation
       in if leN beta alpha then Inr (minEval, bestMove)
          else minLoop rec board alpha rest (minEval, bestMove, beta)))"

text \<open>
  \<open>minimax\<close> returns the pair \<open>{ score, move }\<close>. \<open>depth\<close> counts the plies left
  (the callers pass 2 or 3), so it is a natural number and the recursion on
  \<open>depth - 1\<close> ends at \<open>depth === 0\<close>.
\<close>

primrec minimax ::
  "nat \<Rightarrow> BoardState \<Rightarrow> jsnum \<Rightarrow> jsnum \<Rightarrow> bool \<Rightarrow> error + jsnum \<times> Move option" where
  "minimax 0 board alpha beta isMaximizing =
     bindE (evaluateBoard board) (\<lambda>score. Inr (Finite score, None))"
| "minimax (Suc depth) board alpha beta isMaximizing =
     (let turn = (if isMaximizing then RED else BLACK) in
      bindE (getValidMoves board turn) (\<lambda>validMoves.
        if length validMoves = 0 then
          bindE (isCheck board turn) (\<lambda>chk.
            if chk then Inr (Finite (if isMaximizing then - 100000 else 100000), None)
            else Inr (Finite 0, None))
        else
          bindE (sortMoves board validMoves) (\<lambda>validMoves.
            if isMaximizing then
              maxLoop (\<lambda>b a be. minimax depth b a be False) board beta validMoves
                (NegInfinity, None, alpha)
            else
              minLoop (\<lambda>b a be. minimax depth b a be True) board alpha validMoves
                (Infinity, None, beta))))"

definition getBestMove :: "BoardState \<Rightarrow> nat \<Rightarrow> error + Move option" where
  "getBestMove board depth =
     bindE (minimax depth board NegInfinity Infinity False) (\<lambda>r. Inr (snd r))"

section \<open>Example positions\<close>

text \<open>Boards for the worked examples: the empty grid, and a piece (without \<open>id\<close>) put on a square.\<close>

definition emptyBoard :: BoardState where
  "emptyBoard = replicate 10 (replicate 9 None)"

definition put :: "BoardState \<Rightarrow> int \<Rightarrow> int \<Rightarrow> PieceType \<Rightarrow> Color \<Rightarrow> BoardState" where
  "put board x y t c =
     board[nat y := (board ! nat y)[nat x := Some \<lparr>ptype = t, pcolor = c, pid = None\<rparr>]]"

text \<open>
  \<open>exampleBoard\<close>: BLACK General on (3,0), RED General on (4,9), a RED Soldier on (4,4),
  which has crossed the river.
\<close>

definition exampleBoard :: BoardState where
  "exampleBoard =
     put (put (put emptyBoard 3 0 GENERAL BLACK) 4 9 GENERAL RED) 4 4 SOLDIER RED"

text \<open>
  \<open>mateBoard\<close>: BLACK General on (4,0), RED Rooks on (4,5) and (3,5), RED General on
  (5,9). BLACK to move has no legal move.
\<close>

definition mateBoard :: BoardState where
  "mateBoard =
     put (put (put (put emptyBoard 4 0 GENERAL BLACK) 4 5 ROOK RED) 3 5 ROOK RED) 5 9 GENERAL RED"

text \<open>\<open>noBlackGeneral\<close>: only the RED General, on (4,9), and a BLACK Rook on (0,0).\<close>

definition noBlackGeneral :: BoardState where
  "noBlackGeneral = put (put emptyBoard 4 9 GENERAL RED) 0 0 ROOK BLACK"

text \<open>
  "A General of this color is present on the grid", in the words of the specification:
  some cell of some row holds one.
\<close>

definition generalPresent :: "BoardState \<Rightarrow> Color \<Rightarrow> bool" where
  "generalPresent board color \<longleftrightarrow>
     list_ex (list_ex (\<lambda>cell. case cell of None \<Rightarrow> False
                                | Some pc \<Rightarrow> ptype pc = GENERAL \<and> pcolor pc = color)) board"

text \<open>
  A move is legal for \<open>turn\<close> on \<open>board\<close>, as the legality-closure property reads it:
  the movement rule accepts it, and on the board after the move the mover is not in
  check and the Generals do not face each other.
\<close>

definition legalFor :: "BoardState \<Rightarrow> Color \<Rightarrow> Move \<Rightarrow> bool" where
  "legalFor board turn m \<longleftrightarrow>
     isValidMove board m turn = Inr True \<and>
     (case simulateMove board m of
        Inl e \<Rightarrow> False
      | Inr board' \<Rightarrow> isCheck board' turn = Inr False \<and> areGeneralsFacing board' = Inr False)"

text \<open>
  The piece that \<open>fenToBoard\<close> builds on column \<open>x\<close> of row \<open>y\<close> at its \<open>k\<close>-th
  call of \<open>Math.random()\<close>, and the starting position written out cell by cell
  (\<open>createInitialBoard_eq\<close> below proves that \<open>createInitialBoard\<close> returns it).
\<close>

definition mk :: "(nat \<Rightarrow> string) \<Rightarrow> PieceType \<Rightarrow> Color \<Rightarrow> nat \<Rightarrow> nat \<Rightarrow> nat \<Rightarrow> Piece option" where
  "mk rnd t c x y k =
     Some \<lparr>ptype = t, pcolor = c, pid = Some (showNat x @ ''-'' @ showNat y @ ''-'' @ rnd k)\<rparr>"

definition startBoard :: "(nat \<Rightarrow> string) \<Rightarrow> BoardState" where
  "startBoard rnd =
     [[mk rnd ROOK BLACK 0 0 0, mk rnd HORSE BLACK 1 0 1, mk rnd ELEPHANT BLACK 2 0 2,
       mk rnd ADVISOR BLACK 3 0 3, mk rnd GENERAL BLACK 4 0 4, mk rnd ADVISOR BLACK 5 0 5,
       mk rnd ELEPHANT BLACK 6 0 6, mk rnd HORSE BLACK 7 0 7, mk rnd ROOK BLACK 8 0 8],
      [None, None, None, None, None, None, None, None, None],
      [None, mk rnd CANNON BLACK 1 2 9, None, None, None, None, None,
       mk rnd CANNON BLACK 7 2 10, None],
      [mk rnd SOLDIER BLACK 0 3 11, None, mk rnd SOLDIER BLACK 2 3 12, None,
       mk rnd SOLDIER BLACK 4 3 13, None, mk rnd SOLDIER BLACK 6 3 14, None,
       mk rnd SOLDIER BLACK 8 3 15],
      [None, None, None, None, None, None, None, None, None],
      [None, None, None, None, None, None, None, None, None],
      [mk rnd SOLDIER RED 0 6 16, None, mk rnd SOLDIER RED 2 6 17, None,
       mk rnd SOLDIER RED 4 6 18, None, mk rnd SOLDIER RED 6 6 19, None,
       mk rnd SOLDIER RED 8 6 20],
      [None, mk rnd CANNON RED 1 7 21, None, None, None, None, None,
       mk rnd CANNON RED 7 7 22, None],
      [None, None, None, None, None, None, None, None, None],
      [mk rnd ROOK RED 0 9 23, mk rnd HORSE RED 1 9 24, mk rnd ELEPHANT RED 2 9 25,
       mk rnd ADVISOR RED 3 9 26, mk rnd GENERAL RED 4 9 27, mk rnd ADVISOR RED 5 9 28,
       mk rnd ELEPHANT RED 6 9 29, mk rnd HORSE RED 7 9 30, mk rnd ROOK RED 8 9 31]]"

text \<open>A fixed outcome of \<open>Math.random()\<close>, for the closed examples.\<close>

definition fixedRandom :: "nat \<Rightarrow> string" where
  "fixedRandom k = ''0.5''"

definition clearSquare :: "BoardState \<Rightarrow> int \<Rightarrow> int \<Rightarrow> BoardState" where
  "clearSquare board x y = board[nat y := (board ! nat y)[nat x := None]]"

text \<open>
  The words of the Soldier rule. \<open>enemyHalf\<close> is the region "RED at row \<open>\<le> 4\<close>, BLACK
  at row \<open>\<ge> 5\<close>", taken on the Soldier's current row; \<open>straightForward\<close> is "exactly
  one step straight forward" and \<open>forwardOrSideways\<close> is "exactly one step in one of
  the three non-backward orthogonal directions".
\<close>

definition enemyHalf :: "Color \<Rightarrow> int \<Rightarrow> bool" where
  "enemyHalf c row \<longleftrightarrow> (if c = RED then row \<le> 4 else row \<ge> 5)"

definition forwardDir :: "Color \<Rightarrow> int" where
  "forwardDir c = (if c = RED then - 1 else 1)"

definition straightForward :: "Color \<Rightarrow> Move \<Rightarrow> bool" where
  "straightForward c m \<longleftrightarrow>
     px (mto m) - px (mfrom m) = 0 \<and> py (mto m) - py (mfrom m) = forwardDir c"

definition forwardOrSideways :: "Color \<Rightarrow> Move \<Rightarrow> bool" where
  "forwardOrSideways c m \<longleftrightarrow>
     \<bar>px (mto m) - px (mfrom m)\<bar> + \<bar>py (mto m) - py (mfrom m)\<bar> = 1 \<and>
     py (mto m) - py (mfrom m) \<noteq> - forwardDir c"

section \<open>Arrays as objects: \<open>simulateMove\<close> on a store\<close>

text \<open>
  A JavaScript board is an array of references to row arrays, and an assignment to a
  cell changes the row array for every holder of a reference to it. The store maps
  each reference to the array it names; \<open>fresh\<close> is the next reference that \<open>new\<close>
  hands out.
\<close>

type_synonym ref = nat

record store =
  rowArrays :: "ref \<rightharpoonup> Piece option list"
  boardArrays :: "ref \<rightharpoonup> ref list"
  fresh :: ref

text \<open>The board value that a reference to an array of rows stands for.\<close>

definition boardOf :: "store \<Rightarrow> ref \<Rightarrow> BoardState option" where
  "boardOf s board =
     (case boardArrays s board of
        None \<Rightarrow> None
      | Some rows \<Rightarrow>
          if list_all (\<lambda>r. rowArrays s r \<noteq> None) rows
          then Some (map (\<lambda>r. the (rowArrays s r)) rows) else None)"

text \<open>Every array of the store was handed out before \<open>fresh\<close>.\<close>

definition wf_store :: "store \<Rightarrow> bool" where
  "wf_store s \<longleftrightarrow>
     (\<forall>r. rowArrays s r \<noteq> None \<longrightarrow> r < fresh s) \<and>
     (\<forall>r. boardArrays s r \<noteq> None \<longrightarrow> r < fresh s) \<and>
     (\<forall>r rows. boardArrays s r = Some rows \<longrightarrow> list_all (\<lambda>r. rowArrays s r \<noteq> None) rows)"

text \<open>\<open>[...row]\<close>: a new array with the cells of \<open>row\<close>.\<close>

definition newRow :: "Piece option list \<Rightarrow> store \<Rightarrow> ref \<times> store" where
  "newRow row s = (fresh s, s\<lparr>rowArrays := (rowArrays s)(fresh s \<mapsto> row), fresh := fresh s + 1\<rparr>)"

text \<open>
  \<open>board.map(row => [...row])\<close>, for the rows of \<open>board\<close> in order. A reference that
  names no array cannot occur in a JavaScript run and is \<open>NotInModel\<close>.
\<close>

fun copyRows :: "ref list \<Rightarrow> store \<Rightarrow> error + ref list \<times> store" where
  "copyRows [] s = Inr ([], s)"
| "copyRows (r # rs) s =
     (case rowArrays s r of
        None \<Rightarrow> Inl NotInModel
      | Some row \<Rightarrow>
          (case newRow row s of (r', s1) \<Rightarrow>
             bindE (copyRows rs s1) (\<lambda>(rs', s2). Inr (r' # rs', s2))))"

text \<open>\<open>rows[y][x]\<close> and \<open>rows[y][x] = v\<close> through the references.\<close>

definition readCell :: "store \<Rightarrow> ref list \<Rightarrow> int \<Rightarrow> int \<Rightarrow> error + Piece option" where
  "readCell s rows y x =
     (if 0 \<le> y \<and> y < int (length rows) then
        (case rowArrays s (rows ! nat y) of
           None \<Rightarrow> Inl NotInModel
         | Some row \<Rightarrow> Inr (if 0 \<le> x \<and> x < int (length row) then row ! nat x else None))
      else Inl TypeError)"

definition writeCell :: "store \<Rightarrow> ref list \<Rightarrow> int \<Rightarrow> int \<Rightarrow> Piece option \<Rightarrow> error + store" where
  "writeCell s rows y x v =
     (if 0 \<le> y \<and> y < int (length rows) then
        (case rowArrays s (rows ! nat y) of
           None \<Rightarrow> Inl NotInModel
         | Some row \<Rightarrow>
             bindE (rowWrite row x v)
               (\<lambda>row'. Inr (s\<lparr>rowArrays := (rowArrays s)(rows ! nat y \<mapsto> row')\<rparr>)))
      else Inl TypeError)"

text \<open>\<open>simulateMove\<close> as the source runs it: copy, two assignments on the copy, return the copy.\<close>

definition simulateMoveS :: "store \<Rightarrow> ref \<Rightarrow> Move \<Rightarrow> error + ref \<times> store" where
  "simulateMoveS s board move =
     (case boardArrays s board of
        None \<Rightarrow> Inl NotInModel
      | Some rows \<Rightarrow>
          bindE (copyRows rows s) (\<lambda>(newRows, s1).
            let newBoard = fresh s1;
                s2 = s1\<lparr>boardArrays := (boardArrays s1)(newBoard \<mapsto> newRows),
                        fresh := fresh s1 + 1\<rparr>
            in
            bindE (readCell s2 newRows (py (mfrom move)) (px (mfrom move))) (\<lambda>v.
            bindE (writeCell s2 newRows (py (mto move)) (px (mto move)) v) (\<lambda>s3.
            bindE (writeCell s3 newRows (py (mfrom move)) (px (mfrom move)) None) (\<lambda>s4.
              Inr (newBoard, s4))))))"

text \<open>A store that holds \<open>exampleBoard\<close> under the reference 10, its rows under 0 to 9.\<close>

definition exampleStore :: store where
  "exampleStore =
     \<lparr>rowArrays = (\<lambda>r. if r < 10 then Some (exampleBoard ! r) else None),
      boardArrays = (\<lambda>r. if r = 10 then Some [0, 1, 2, 3, 4, 5, 6, 7, 8, 9] else None),
      fresh = 11\<rparr>"

section \<open>Predicates for the proofs about the search\<close>

text \<open>
  \<open>rec_total\<close>: a search function returns a finite score on every 10 by 9 board.
  \<open>moves_on_grid\<close>: every move of the list goes from a square of the grid to a square
  of the grid.
\<close>

definition rec_total :: "(BoardState \<Rightarrow> jsnum \<Rightarrow> jsnum \<Rightarrow> error + jsnum \<times> Move option) \<Rightarrow> bool" where
  "rec_total rec \<longleftrightarrow> (\<forall>b a be. wf_board b \<longrightarrow> (\<exists>v mv. rec b a be = Inr (Finite v, mv)))"

definition moves_on_grid :: "Move list \<Rightarrow> bool" where
  "moves_on_grid ms \<longleftrightarrow> (\<forall>m \<in> set ms. isValidPos (mfrom m) \<and> isValidPos (mto m))"

section \<open>The FEN text of a row, for the proofs about the converter\<close>

text \<open>
  "Board-equal, ignoring the instance tag": the type and color of the piece on each
  cell, without the \<open>id\<close>.
\<close>

definition strip :: "Piece option \<Rightarrow> (PieceType \<times> Color) option" where
  "strip cell = map_option (\<lambda>p. (ptype p, pcolor p)) cell"

definition contents :: "BoardState \<Rightarrow> (PieceType \<times> Color) option list list" where
  "contents board = map (map strip) board"

text \<open>
  What \<open>boardToFen\<close> appends for one piece, for a pending count of empty cells, for
  the cells of a row after \<open>emptyCount\<close> empty cells, and for the rows of a board.
\<close>

definition pieceChar :: "Piece \<Rightarrow> char" where
  "pieceChar p =
     (if pcolor p = RED then toUpperCase (typeChar (ptype p)) else toLowerCase (typeChar (ptype p)))"

definition flushCount :: "nat \<Rightarrow> string" where
  "flushCount emptyCount = (if emptyCount > 0 then showNat emptyCount else [])"

fun encRow :: "Piece option list \<Rightarrow> nat \<Rightarrow> string" where
  "encRow [] emptyCount = flushCount emptyCount"
| "encRow (None # cells) emptyCount = encRow cells (emptyCount + 1)"
| "encRow (Some p # cells) emptyCount = flushCount emptyCount @ [pieceChar p] @ encRow cells 0"

fun encBoard :: "BoardState \<Rightarrow> string" where
  "encBoard [] = []"
| "encBoard [row] = encRow row 0"
| "encBoard (row # rows) = encRow row 0 @ ''/'' @ encBoard rows"

section \<open>Basic facts about the error monad and the loops\<close>

lemma bindE_Inl [simp]: "bindE (Inl e) f = Inl e"
  by (simp add: bindE_def)

lemma bindE_Inr [simp]: "bindE (Inr v) f = f v"
  by (simp add: bindE_def)

lemma bindE_eq_Inr: "bindE m f = Inr r \<longleftrightarrow> (\<exists>v. m = Inr v \<and> f v = Inr r)"
  by (cases m) simp_all

lemma forEachE_invariant:
  assumes "forEachE body as s = Inr s'" and "P s"
    and "\<And>a t t'. a \<in> set as \<Longrightarrow> P t \<Longrightarrow> body a t = Inr t' \<Longrightarrow> P t'"
  shows "P s'"
  using assms
proof (induction as arbitrary: s)
  case Nil
  then show ?case by simp
next
  case (Cons a as)
  from Cons.prems(1) obtain t where t: "body a s = Inr t" and rest: "forEachE body as t = Inr s'"
    by (auto simp: bindE_eq_Inr)
  have Pt: "P t" using Cons.prems(3)[of a s t] Cons.prems(2) t by simp
  show ?case
    by (rule Cons.IH[OF rest Pt]) (use Cons.prems(3) in auto)
qed

lemma forEachE_total:
  assumes "P s"
    and "\<And>a t. a \<in> set as \<Longrightarrow> P t \<Longrightarrow> \<exists>t'. body a t = Inr t' \<and> P t'"
  shows "\<exists>s'. forEachE body as s = Inr s' \<and> P s'"
  using assms
proof (induction as arbitrary: s)
  case Nil
  then show ?case by simp
next
  case (Cons a as)
  from Cons.prems obtain t where t: "body a s = Inr t" "P t"
    by (meson list.set_intros(1))
  with Cons.IH[of t] Cons.prems(2) show ?case by simp
qed

lemma squares_iff: "(x, y) \<in> set squares \<longleftrightarrow> 0 \<le> x \<and> x \<le> 8 \<and> 0 \<le> y \<and> y \<le> 9"
  by (auto simp: squares_def image_iff)

lemma wf_board_length: "wf_board b \<Longrightarrow> length b = 10"
  by (simp add: wf_board_def)

lemma wf_board_row: "wf_board b \<Longrightarrow> i < 10 \<Longrightarrow> length (b ! i) = 9"
  by (simp add: wf_board_def list_all_length)

lemma cell_at_wf:
  "wf_board b \<Longrightarrow> 0 \<le> y \<Longrightarrow> y \<le> 9 \<Longrightarrow>
   cell_at b y x = Inr (if 0 \<le> x \<and> x \<le> 8 then b ! nat y ! nat x else None)"
  by (auto simp: cell_at_def Let_def wf_board_length wf_board_row)

lemma cell_at_total: "wf_board b \<Longrightarrow> 0 \<le> y \<Longrightarrow> y \<le> 9 \<Longrightarrow> \<exists>c. cell_at b y x = Inr c"
  by (simp add: cell_at_wf)

lemma getPieceAt_total: "wf_board b \<Longrightarrow> \<exists>c. getPieceAt b p = Inr c"
  by (auto simp: getPieceAt_def isValidPos_def cell_at_wf)

lemma getPieceAt_Some_valid: "getPieceAt b p = Inr (Some pc) \<Longrightarrow> isValidPos p"
  by (auto simp: getPieceAt_def split: if_splits)

lemma countLoop_total:
  "(\<And>i. i \<in> set is \<Longrightarrow> \<exists>c. rd i = Inr c) \<Longrightarrow> \<exists>n. countLoop rd is k = Inr n"
proof (induction "is" arbitrary: k)
  case Nil
  then show ?case by simp
next
  case (Cons i "is")
  then obtain c where "rd i = Inr c" by (meson list.set_intros(1))
  with Cons show ?case by simp
qed

lemma countPiecesBetween_total:
  assumes "wf_board b" "isValidPos p1" "isValidPos p2"
  shows "\<exists>n. countPiecesBetween b p1 p2 = Inr n"
proof -
  have col: "\<exists>n. countLoop (\<lambda>y. cell_at b y (px p1)) [min (py p1) (py p2) + 1 .. max (py p1) (py p2) - 1] 0 = Inr n"
    using assms by (intro countLoop_total cell_at_total) (auto simp: isValidPos_def)
  have row: "\<exists>n. countLoop (\<lambda>x. cell_at b (py p1) x) [min (px p1) (px p2) + 1 .. max (px p1) (px p2) - 1] 0 = Inr n"
    using assms by (intro countLoop_total cell_at_total) (auto simp: isValidPos_def)
  show ?thesis using col row by (auto simp: countPiecesBetween_def)
qed

lemma pieceRule_total:
  assumes "wf_board b" "isValidPos from" "isValidPos to"
  shows "\<exists>r. pieceRule b pc target from to = Inr r"
proof -
  obtain n where n: "countPiecesBetween b from to = Inr n"
    using countPiecesBetween_total[OF assms] by blast
  have gp: "\<And>p. \<exists>c. getPieceAt b p = Inr c" using assms(1) by (rule getPieceAt_total)
  show ?thesis
  proof (cases "ptype pc")
    case ELEPHANT
    obtain c where "getPieceAt b \<lparr>px = px from + (px to - px from) div 2, py = py from + (py to - py from) div 2\<rparr> = Inr c"
      using gp by blast
    with ELEPHANT show ?thesis by (auto simp: pieceRule_def Let_def)
  next
    case HORSE
    obtain c where "getPieceAt b \<lparr>px = (if \<bar>px to - px from\<bar> = 2 then px from + (px to - px from) div 2 else px from),
        py = (if \<bar>py to - py from\<bar> = 2 then py from + (py to - py from) div 2 else py from)\<rparr> = Inr c"
      using gp by blast
    with HORSE show ?thesis by (auto simp: pieceRule_def Let_def)
  qed (auto simp: pieceRule_def Let_def n)
qed

lemma isValidMove_total:
  assumes "wf_board b"
  shows "\<exists>r. isValidMove b m c = Inr r"
proof -
  obtain piece where p: "getPieceAt b (mfrom m) = Inr piece" using getPieceAt_total[OF assms] by blast
  obtain target where t: "getPieceAt b (mto m) = Inr target" using getPieceAt_total[OF assms] by blast
  show ?thesis
  proof (cases piece)
    case None
    then show ?thesis by (auto simp: isValidMove_def Let_def p t)
  next
    case (Some pc)
    then have "isValidPos (mfrom m)" using p getPieceAt_Some_valid by blast
    then show ?thesis
      using pieceRule_total[OF assms, of "mfrom m" "mto m" pc target] Some
      by (auto simp: isValidMove_def Let_def p t)
  qed
qed

lemma isValidMove_True_valid:
  assumes "isValidMove b m c = Inr True"
  shows "isValidPos (mfrom m) \<and> isValidPos (mto m) \<and> \<not> (px (mfrom m) = px (mto m) \<and> py (mfrom m) = py (mto m))"
proof -
  from assms obtain piece target where p: "getPieceAt b (mfrom m) = Inr piece"
    and t: "getPieceAt b (mto m) = Inr target"
    and r: "(case piece of None \<Rightarrow> Inr False
        | Some pc \<Rightarrow>
            if pcolor pc \<noteq> c then Inr False
            else if \<not> isValidPos (mto m) then Inr False
            else if px (mfrom m) = px (mto m) \<and> py (mfrom m) = py (mto m) then Inr False
            else if (case target of None \<Rightarrow> False | Some t \<Rightarrow> pcolor t = c) then Inr False
            else pieceRule b pc target (mfrom m) (mto m)) = Inr True"
    unfolding isValidMove_def Let_def bindE_eq_Inr by blast
  from r obtain pc where pc: "piece = Some pc" by (cases piece) auto
  have "isValidPos (mfrom m)" using p pc getPieceAt_Some_valid by blast
  moreover have "isValidPos (mto m)" using r pc by (auto split: if_splits)
  moreover have "\<not> (px (mfrom m) = px (mto m) \<and> py (mfrom m) = py (mto m))"
    using r pc by (auto split: if_splits)
  ultimately show ?thesis by blast
qed

section \<open>The rules engine returns on every 10 by 9 board\<close>

lemma findFirstE_total:
  "(\<And>a. a \<in> set as \<Longrightarrow> \<exists>r. f a = Inr r) \<Longrightarrow> \<exists>r. findFirstE f as = Inr r"
proof (induction as)
  case Nil
  then show ?case by simp
next
  case (Cons a as)
  then obtain r where "f a = Inr r" by (meson list.set_intros(1))
  with Cons show ?case by (cases r) auto
qed

lemma findFirstE_Some:
  "findFirstE f as = Inr (Some b) \<Longrightarrow> \<exists>a \<in> set as. f a = Inr (Some b)"
proof (induction as)
  case Nil
  then show ?case by simp
next
  case (Cons a as)
  then show ?case by (auto simp: bindE_eq_Inr split: option.splits)
qed

lemma findFirstE_None:
  "(\<And>a. a \<in> set as \<Longrightarrow> f a = Inr None) \<Longrightarrow> findFirstE f as = Inr None"
  by (induction as) auto

lemma wf_board_update:
  assumes "wf_board b" "length r = 9"
  shows "wf_board (b[i := r])"
proof -
  have "length (b[i := r] ! n) = 9" if "n < 10" for n
    using that assms by (cases "n = i") (simp_all add: wf_board_length wf_board_row)
  then show ?thesis using assms(1) by (simp add: wf_board_def list_all_length)
qed

lemma cellWrite_wf:
  assumes "wf_board b" "0 \<le> y" "y \<le> 9" "0 \<le> x" "x \<le> 8"
  shows "cellWrite b y x v = Inr (b[nat y := (b ! nat y)[nat x := v]])"
  using assms by (simp add: cellWrite_def rowWrite_def wf_board_length wf_board_row)

lemma wf_board_cellset:
  "wf_board b \<Longrightarrow> i < 10 \<Longrightarrow> wf_board (b[i := (b ! i)[j := v]])"
  by (simp add: wf_board_update wf_board_row)

lemma simulateMove_wf_eq:
  assumes "wf_board b" "isValidPos (mfrom m)" "isValidPos (mto m)"
  shows "simulateMove b m =
    Inr (let b1 = b[nat (py (mto m)) := (b ! nat (py (mto m)))[nat (px (mto m)) := b ! nat (py (mfrom m)) ! nat (px (mfrom m))]]
         in b1[nat (py (mfrom m)) := (b1 ! nat (py (mfrom m)))[nat (px (mfrom m)) := None]])"
proof -
  let ?b1 = "b[nat (py (mto m)) := (b ! nat (py (mto m)))[nat (px (mto m)) := b ! nat (py (mfrom m)) ! nat (px (mfrom m))]]"
  have wf1: "wf_board ?b1" using assms by (intro wf_board_cellset) (auto simp: isValidPos_def)
  show ?thesis
    using assms cellWrite_wf[OF wf1, of "py (mfrom m)" "px (mfrom m)" None]
    by (simp add: simulateMove_def Let_def cell_at_wf cellWrite_wf isValidPos_def)
qed

lemma simulateMove_wf:
  assumes "wf_board b" "isValidPos (mfrom m)" "isValidPos (mto m)"
  shows "\<exists>b'. simulateMove b m = Inr b' \<and> wf_board b'"
proof -
  have "nat (py (mto m)) < 10" "nat (py (mfrom m)) < 10"
    using assms by (auto simp: isValidPos_def)
  then show ?thesis
    unfolding simulateMove_wf_eq[OF assms] Let_def
    using assms(1) by (simp add: wf_board_cellset)
qed

lemma findGeneral_total: "wf_board b \<Longrightarrow> \<exists>r. findGeneral b c = Inr r"
  unfolding findGeneral_def
  by (rule findFirstE_total) (auto simp: squares_iff cell_at_wf split: option.splits)

lemma findGeneral_Some:
  assumes "findGeneral b c = Inr (Some p)"
  shows "isValidPos p"
proof -
  from findFirstE_Some[OF assms[unfolded findGeneral_def]]
  obtain x y where "(x, y) \<in> set squares" and "p = \<lparr>px = x, py = y\<rparr>"
    by (fastforce simp: bindE_eq_Inr split: option.splits if_splits)
  then show ?thesis by (simp add: isValidPos_def squares_iff)
qed

lemma areGeneralsFacing_total:
  assumes "wf_board b"
  shows "\<exists>r. areGeneralsFacing b = Inr r"
proof -
  obtain r where r: "findGeneral b RED = Inr r" using findGeneral_total[OF assms] by blast
  obtain k where k: "findGeneral b BLACK = Inr k" using findGeneral_total[OF assms] by blast
  show ?thesis
  proof (cases r)
    case None
    then show ?thesis by (auto simp: areGeneralsFacing_def r k)
  next
    case rs: (Some rp)
    show ?thesis
    proof (cases k)
      case None
      then show ?thesis by (auto simp: areGeneralsFacing_def r k rs)
    next
      case (Some kp)
      obtain n where "countPiecesBetween b rp kp = Inr n"
        using countPiecesBetween_total[OF assms, of rp kp] findGeneral_Some r k rs Some by blast
      then show ?thesis by (auto simp: areGeneralsFacing_def r k rs Some)
    qed
  qed
qed

lemma isCheck_total:
  assumes "wf_board b"
  shows "\<exists>r. isCheck b c = Inr r"
proof -
  obtain g where g: "findGeneral b c = Inr g" using findGeneral_total[OF assms] by blast
  show ?thesis
  proof (cases g)
    case None
    then show ?thesis by (auto simp: isCheck_def g)
  next
    case (Some generalPos)
    let ?enemy = "if c = RED then BLACK else RED"
    let ?body = "\<lambda>(x, y). bindE (cell_at b y x) (\<lambda>p.
                    case p of
                      None \<Rightarrow> Inr None
                    | Some pc \<Rightarrow>
                        if pcolor pc = ?enemy then
                          bindE (isValidMove b \<lparr>mfrom = \<lparr>px = x, py = y\<rparr>, mto = generalPos\<rparr> ?enemy)
                            (\<lambda>ok. Inr (if ok then Some () else None))
                        else Inr None)"
    have "\<exists>r. findFirstE ?body squares = Inr r"
    proof (rule findFirstE_total)
      fix a assume asq: "a \<in> set squares"
      obtain x y where a: "a = (x, y)" by (cases a)
      have xy: "0 \<le> x" "x \<le> 8" "0 \<le> y" "y \<le> 9"
        using asq by (simp_all add: a squares_iff)
      obtain ok where "isValidMove b \<lparr>mfrom = \<lparr>px = x, py = y\<rparr>, mto = generalPos\<rparr> ?enemy = Inr ok"
        using isValidMove_total[OF assms] by blast
      then show "\<exists>r. ?body a = Inr r"
        using xy assms by (auto simp: a cell_at_wf split: option.splits)
    qed
    then obtain r where r: "findFirstE ?body squares = Inr r" by blast
    show ?thesis
      by (simp only: isCheck_def g Some Let_def bindE_Inr option.case r) blast
  qed
qed

lemma tryMove_total:
  assumes "wf_board b"
  shows "\<exists>ms'. tryMove b c src dst ms = Inr ms'"
proof -
  let ?m = "\<lparr>mfrom = \<lparr>px = fst src, py = snd src\<rparr>, mto = \<lparr>px = fst dst, py = snd dst\<rparr>\<rparr>"
  obtain ok where ok: "isValidMove b ?m c = Inr ok" using isValidMove_total[OF assms] by blast
  show ?thesis
  proof (cases ok)
    case False
    then show ?thesis by (auto simp: tryMove_def Let_def ok)
  next
    case True
    then have v: "isValidPos (mfrom ?m)" "isValidPos (mto ?m)"
      using isValidMove_True_valid[of b ?m c] ok by simp_all
    obtain b' where b': "simulateMove b ?m = Inr b'" "wf_board b'"
      using simulateMove_wf[OF assms v] by blast
    obtain chk where chk: "isCheck b' c = Inr chk" using isCheck_total[OF b'(2)] by blast
    obtain f where f: "areGeneralsFacing b' = Inr f" using areGeneralsFacing_total[OF b'(2)] by blast
    show ?thesis using True by (auto simp: tryMove_def Let_def ok b' chk f)
  qed
qed

lemma getValidMoves_total:
  assumes "wf_board b"
  shows "\<exists>ms. getValidMoves b c = Inr ms"
proof -
  have "\<exists>ms. forEachE (\<lambda>src moves.
       bindE (cell_at b (snd src) (fst src)) (\<lambda>piece.
         case piece of
           None \<Rightarrow> Inr moves
         | Some pc \<Rightarrow>
             if pcolor pc = c then forEachE (tryMove b c src) squares moves
             else Inr moves)) squares [] = Inr ms \<and> True"
  proof (rule forEachE_total[where P = "\<lambda>_. True"])
    fix a :: "int \<times> int" and t :: "Move list"
    assume asq: "a \<in> set squares"
    have a: "0 \<le> snd a" "snd a \<le> 9"
      using asq squares_iff[of "fst a" "snd a"] by simp_all
    have inner: "\<exists>t'. forEachE (tryMove b c a) squares t = Inr t' \<and> True"
      by (rule forEachE_total[where P = "\<lambda>_. True"]) (use tryMove_total[OF assms] in auto)
    show "\<exists>t'. bindE (cell_at b (snd a) (fst a)) (\<lambda>piece.
         case piece of
           None \<Rightarrow> Inr t
         | Some pc \<Rightarrow>
             if pcolor pc = c then forEachE (tryMove b c a) squares t
             else Inr t) = Inr t' \<and> True"
      using inner a assms by (auto simp: cell_at_wf split: option.splits)
  qed simp
  then show ?thesis by (simp add: getValidMoves_def)
qed

section \<open>The claims about the rules engine\<close>

lemma exampleBoard_wf: "wf_board exampleBoard"
  by code_simp

lemma mateBoard_wf: "wf_board mateBoard"
  by code_simp

lemma noBlackGeneral_wf: "wf_board noBlackGeneral"
  by code_simp

subsection \<open>Positions outside the grid\<close>

text \<open>
  Claim C10. For every position outside the 9 by 10 grid \<open>getPieceAt\<close> returns
  \<open>null\<close> on every board, without reading the board; and on every 10 by 9 board
  \<open>isValidMove\<close> returns \<open>false\<close> for every move whose \<open>from\<close> or \<open>to\<close> is
  outside the grid.
\<close>

theorem getPieceAt_isValidMove_outside:
  "(\<not> isValidPos p \<longrightarrow> getPieceAt board p = Inr None) \<and>
   (wf_board board \<longrightarrow> \<not> isValidPos (mfrom m) \<or> \<not> isValidPos (mto m) \<longrightarrow>
      isValidMove board m c = Inr False)"
proof (intro conjI impI)
  assume "\<not> isValidPos p"
  then show "getPieceAt board p = Inr None" by (simp add: getPieceAt_def)
next
  assume wf: "wf_board board" and out: "\<not> isValidPos (mfrom m) \<or> \<not> isValidPos (mto m)"
  obtain piece where p: "getPieceAt board (mfrom m) = Inr piece"
    using getPieceAt_total[OF wf] by blast
  obtain target where t: "getPieceAt board (mto m) = Inr target"
    using getPieceAt_total[OF wf] by blast
  show "isValidMove board m c = Inr False"
  proof (cases piece)
    case None
    then show ?thesis by (simp add: isValidMove_def Let_def p t)
  next
    case (Some pc)
    then have "isValidPos (mfrom m)" using p getPieceAt_Some_valid by blast
    with out have "\<not> isValidPos (mto m)" by blast
    then show ?thesis by (simp add: isValidMove_def Let_def p t Some)
  qed
qed

theorem getPieceAt_isValidMove_outside_witness:
  "\<not> isValidPos \<lparr>px = 9, py = 0\<rparr> \<and> getPieceAt exampleBoard \<lparr>px = 9, py = 0\<rparr> = Inr None \<and>
   wf_board exampleBoard \<and> \<not> isValidPos \<lparr>px = 4, py = - 1\<rparr> \<and>
   isValidMove exampleBoard \<lparr>mfrom = \<lparr>px = 4, py = 4\<rparr>, mto = \<lparr>px = 4, py = - 1\<rparr>\<rparr> RED = Inr False"
  using getPieceAt_isValidMove_outside[of "\<lparr>px = 9, py = 0\<rparr>" exampleBoard
      "\<lparr>mfrom = \<lparr>px = 4, py = 4\<rparr>, mto = \<lparr>px = 4, py = - 1\<rparr>\<rparr>" RED] exampleBoard_wf
  by (simp add: isValidPos_def)

subsection \<open>Check detection without a General\<close>

lemma generalPresent_cell:
  assumes "wf_board b" "\<not> generalPresent b c" "0 \<le> y" "y \<le> 9" "0 \<le> x" "x \<le> 8"
    and "b ! nat y ! nat x = Some pc"
  shows "\<not> (ptype pc = GENERAL \<and> pcolor pc = c)"
proof -
  have row: "b ! nat y \<in> set b" using assms by (simp add: wf_board_length)
  have cell: "b ! nat y ! nat x \<in> set (b ! nat y)"
    using assms(1,3-6) by (intro nth_mem) (simp add: wf_board_row)
  have "\<not> (case b ! nat y ! nat x of None \<Rightarrow> False
            | Some pc \<Rightarrow> ptype pc = GENERAL \<and> pcolor pc = c)"
    using assms(2) row cell unfolding generalPresent_def list_ex_iff by blast
  then show ?thesis by (simp add: assms(7))
qed

text \<open>
  Claim C7. On every 10 by 9 board on which no General of the color is present,
  \<open>isCheck\<close> returns \<open>true\<close>: it returns a boolean and does not throw. The case
  of a missing BLACK General is the instance \<open>c = BLACK\<close>.
\<close>

theorem isCheck_missing_general:
  assumes "wf_board b" "\<not> generalPresent b c"
  shows "isCheck b c = Inr True"
proof -
  have "findGeneral b c = Inr None"
    unfolding findGeneral_def
  proof (rule findFirstE_None)
    fix a assume asq: "a \<in> set squares"
    obtain x y where a: "a = (x, y)" by (cases a)
    have xy: "0 \<le> x" "x \<le> 8" "0 \<le> y" "y \<le> 9" using asq by (simp_all add: a squares_iff)
    show "(case a of (x, y) \<Rightarrow> bindE (cell_at b y x) (\<lambda>p.
        case p of
          None \<Rightarrow> Inr None
        | Some pc \<Rightarrow>
            if ptype pc = GENERAL \<and> pcolor pc = c then Inr (Some \<lparr>px = x, py = y\<rparr>)
            else Inr None)) = Inr None"
      using generalPresent_cell[OF assms xy(3,4,1,2)] xy assms(1)
      by (auto simp: a cell_at_wf split: option.splits)
  qed
  then show ?thesis by (simp add: isCheck_def)
qed

theorem isCheck_missing_general_witness:
  "wf_board noBlackGeneral \<and> \<not> generalPresent noBlackGeneral BLACK \<and>
   isCheck noBlackGeneral BLACK = Inr True"
proof -
  have g: "\<not> generalPresent noBlackGeneral BLACK" by code_simp
  show ?thesis
    using isCheck_missing_general[OF noBlackGeneral_wf g] noBlackGeneral_wf g by simp
qed

subsection \<open>Game status\<close>

lemma mateBoard_moves: "getValidMoves mateBoard BLACK = Inr []"
  by code_simp

text \<open>
  Claim C6. \<open>getGameStatus\<close> never returns \<open>DRAW\<close>; on every 10 by 9 board
  \<open>getValidMoves\<close> returns a list, and the status is the win of the other color
  when that list is empty and \<open>PLAYING\<close> otherwise.
\<close>

theorem getGameStatus_spec:
  "getGameStatus b c \<noteq> Inr DRAW \<and>
   (wf_board b \<longrightarrow>
      (\<exists>ms. getValidMoves b c = Inr ms \<and>
         getGameStatus b c =
           Inr (if ms = [] then (if c = RED then BLACK_WIN else RED_WIN) else PLAYING)))"
proof (intro conjI impI)
  show "getGameStatus b c \<noteq> Inr DRAW"
    by (cases "getValidMoves b c") (auto simp: getGameStatus_def)
next
  assume "wf_board b"
  then obtain ms where "getValidMoves b c = Inr ms" using getValidMoves_total by blast
  then show "\<exists>ms. getValidMoves b c = Inr ms \<and>
         getGameStatus b c =
           Inr (if ms = [] then (if c = RED then BLACK_WIN else RED_WIN) else PLAYING)"
    by (simp add: getGameStatus_def)
qed

theorem getGameStatus_spec_witness:
  "wf_board mateBoard \<and> getValidMoves mateBoard BLACK = Inr [] \<and>
   getGameStatus mateBoard BLACK = Inr RED_WIN \<and> getGameStatus mateBoard BLACK \<noteq> Inr DRAW"
  using getGameStatus_spec[of mateBoard BLACK] mateBoard_wf mateBoard_moves by simp

subsection \<open>Legality closure of the enumeration\<close>

lemma legalFor_iff:
  "legalFor b c m \<longleftrightarrow>
     isValidMove b m c = Inr True \<and>
     (\<exists>b'. simulateMove b m = Inr b' \<and> isCheck b' c = Inr False \<and>
           areGeneralsFacing b' = Inr False)"
  by (cases "simulateMove b m") (auto simp: legalFor_def)

lemma tryMove_sound:
  assumes "tryMove b c src dst ms = Inr ms'" "\<forall>m \<in> set ms. legalFor b c m"
  shows "\<forall>m \<in> set ms'. legalFor b c m"
proof -
  let ?m = "\<lparr>mfrom = \<lparr>px = fst src, py = snd src\<rparr>, mto = \<lparr>px = fst dst, py = snd dst\<rparr>\<rparr>"
  from assms(1) obtain ok where ok: "isValidMove b ?m c = Inr ok"
    by (auto simp: tryMove_def Let_def bindE_eq_Inr)
  show ?thesis
  proof (cases "ms' = ms")
    case True
    then show ?thesis using assms(2) by simp
  next
    case False
    with assms(1) ok have "ok" and "ms' = ms @ [?m]" and
      "\<exists>b'. simulateMove b ?m = Inr b' \<and> isCheck b' c = Inr False \<and> areGeneralsFacing b' = Inr False"
      by (auto simp: tryMove_def Let_def bindE_eq_Inr split: if_splits)
    then show ?thesis using assms(2) ok by (auto simp: legalFor_iff)
  qed
qed

lemma getValidMoves_sound:
  assumes "getValidMoves b c = Inr ms"
  shows "\<forall>m \<in> set ms. legalFor b c m"
proof (rule forEachE_invariant[OF assms[unfolded getValidMoves_def], where P = "\<lambda>ms. \<forall>m \<in> set ms. legalFor b c m"])
  show "\<forall>m\<in>set []. legalFor b c m" by simp
next
  fix a :: "int \<times> int" and t t' :: "Move list"
  assume P: "\<forall>m\<in>set t. legalFor b c m"
    and step: "bindE (cell_at b (snd a) (fst a)) (\<lambda>piece.
         case piece of
           None \<Rightarrow> Inr t
         | Some pc \<Rightarrow>
             if pcolor pc = c then forEachE (tryMove b c a) squares t
             else Inr t) = Inr t'"
  show "\<forall>m\<in>set t'. legalFor b c m"
  proof (cases "t' = t")
    case True
    then show ?thesis using P by simp
  next
    case False
    with step have inner: "forEachE (tryMove b c a) squares t = Inr t'"
      by (auto simp: bindE_eq_Inr split: option.splits if_splits)
    show ?thesis
      by (rule forEachE_invariant[OF inner, where P = "\<lambda>ms. \<forall>m \<in> set ms. legalFor b c m"])
         (use P tryMove_sound in blast)+
  qed
qed

text \<open>
  Claim C1. On every 10 by 9 board and for every color, \<open>getValidMoves\<close> returns a
  list, and every move in it is accepted by \<open>isValidMove\<close>, and on the board that
  \<open>simulateMove\<close> returns for it the mover is not in check and the Generals do
  not face each other.
\<close>

theorem getValidMoves_legality_closure:
  assumes "wf_board B"
  shows "\<exists>ms. getValidMoves B C = Inr ms \<and>
     (\<forall>m \<in> set ms. isValidMove B m C = Inr True \<and>
        (\<exists>B'. simulateMove B m = Inr B' \<and> isCheck B' C = Inr False \<and>
               areGeneralsFacing B' = Inr False))"
proof -
  obtain ms where ms: "getValidMoves B C = Inr ms" using getValidMoves_total[OF assms] by blast
  have "\<forall>m \<in> set ms. legalFor B C m" using getValidMoves_sound[OF ms] .
  then show ?thesis using ms by (simp add: legalFor_iff)
qed

lemma exampleBoard_moves:
  "getValidMoves exampleBoard BLACK =
     Inr [\<lparr>mfrom = \<lparr>px = 3, py = 0\<rparr>, mto = \<lparr>px = 4, py = 0\<rparr>\<rparr>,
          \<lparr>mfrom = \<lparr>px = 3, py = 0\<rparr>, mto = \<lparr>px = 3, py = 1\<rparr>\<rparr>]"
  by code_simp

theorem getValidMoves_legality_closure_witness:
  "wf_board exampleBoard \<and>
   (\<exists>ms. getValidMoves exampleBoard BLACK = Inr ms \<and>
      \<lparr>mfrom = \<lparr>px = 3, py = 0\<rparr>, mto = \<lparr>px = 3, py = 1\<rparr>\<rparr> \<in> set ms \<and>
      (\<forall>m \<in> set ms. isValidMove exampleBoard m BLACK = Inr True \<and>
        (\<exists>B'. simulateMove exampleBoard m = Inr B' \<and> isCheck B' BLACK = Inr False \<and>
               areGeneralsFacing B' = Inr False)))"
proof -
  from getValidMoves_legality_closure[OF exampleBoard_wf, of BLACK]
  obtain ms where ms: "getValidMoves exampleBoard BLACK = Inr ms"
    and closure: "\<forall>m \<in> set ms. isValidMove exampleBoard m BLACK = Inr True \<and>
        (\<exists>B'. simulateMove exampleBoard m = Inr B' \<and> isCheck B' BLACK = Inr False \<and>
               areGeneralsFacing B' = Inr False)"
    by blast
  have "\<lparr>mfrom = \<lparr>px = 3, py = 0\<rparr>, mto = \<lparr>px = 3, py = 1\<rparr>\<rparr> \<in> set ms"
    using ms exampleBoard_moves by auto
  then show ?thesis using exampleBoard_wf ms closure by blast
qed

lemma createInitialBoard_eq: "createInitialBoard rnd = Inr (startBoard rnd)"
  by code_simp

lemma startBoard_wf: "wf_board (startBoard rnd)"
  by (simp add: startBoard_def wf_board_def)

subsection \<open>The Soldier rule\<close>

text \<open>
  Claim C2, as stated, fails: it calls the rows "RED \<open>\<le> 4\<close>, BLACK \<open>\<ge> 5\<close>" the
  rows before the river and allows only the straight step there. The RED Soldier of
  \<open>exampleBoard\<close> stands on row 4, and \<open>isValidMove\<close> accepts its step sideways.
\<close>

theorem soldier_before_river_counterexample:
  "getPieceAt exampleBoard \<lparr>px = 4, py = 4\<rparr> = Inr (Some \<lparr>ptype = SOLDIER, pcolor = RED, pid = None\<rparr>) \<and>
   enemyHalf RED 4 \<and>
   isValidMove exampleBoard \<lparr>mfrom = \<lparr>px = 4, py = 4\<rparr>, mto = \<lparr>px = 3, py = 4\<rparr>\<rparr> RED = Inr True \<and>
   \<not> straightForward RED \<lparr>mfrom = \<lparr>px = 4, py = 4\<rparr>, mto = \<lparr>px = 3, py = 4\<rparr>\<rparr>"
  by code_simp

text \<open>
  Claim C2, amended. The rows "RED \<open>\<le> 4\<close>, BLACK \<open>\<ge> 5\<close>" are the rows beyond the
  river (the source's \<open>crossedRiver\<close>). For a Soldier of the color to move,
  \<open>isValidMove\<close> accepts a move to a square of the grid not held by a piece of the same
  color exactly when it is one step forward or sideways, if the Soldier stands on those
  rows, and exactly when it is one step straight forward, if it stands on the other
  rows; every other move is rejected.
\<close>

theorem soldier_rule:
  assumes "getPieceAt b (mfrom m) = Inr (Some pc)" "ptype pc = SOLDIER" "pcolor pc = c"
    and "getPieceAt b (mto m) = Inr target"
  shows "isValidMove b m c =
     Inr (isValidPos (mto m) \<and> (\<forall>t. target = Some t \<longrightarrow> pcolor t \<noteq> c) \<and>
          (if enemyHalf c (py (mfrom m)) then forwardOrSideways c m else straightForward c m))"
proof (cases c)
  case RED
  then show ?thesis
    using assms
    by (cases target)
       (auto simp: isValidMove_def pieceRule_def Let_def enemyHalf_def forwardDir_def
          straightForward_def forwardOrSideways_def)
next
  case BLACK
  then show ?thesis
    using assms
    by (cases target)
       (auto simp: isValidMove_def pieceRule_def Let_def enemyHalf_def forwardDir_def
          straightForward_def forwardOrSideways_def)
qed


theorem soldier_rule_witness:
  "getPieceAt exampleBoard \<lparr>px = 4, py = 4\<rparr> = Inr (Some \<lparr>ptype = SOLDIER, pcolor = RED, pid = None\<rparr>) \<and>
   getPieceAt exampleBoard \<lparr>px = 3, py = 4\<rparr> = Inr None \<and>
   enemyHalf RED 4 \<and>
   forwardOrSideways RED \<lparr>mfrom = \<lparr>px = 4, py = 4\<rparr>, mto = \<lparr>px = 3, py = 4\<rparr>\<rparr> \<and>
   isValidMove exampleBoard \<lparr>mfrom = \<lparr>px = 4, py = 4\<rparr>, mto = \<lparr>px = 3, py = 4\<rparr>\<rparr> RED = Inr True"
proof -
  have a: "getPieceAt exampleBoard (mfrom \<lparr>mfrom = \<lparr>px = 4, py = 4\<rparr>, mto = \<lparr>px = 3, py = 4\<rparr>\<rparr>) =
      Inr (Some \<lparr>ptype = SOLDIER, pcolor = RED, pid = None\<rparr>)"
    by code_simp
  have t: "getPieceAt exampleBoard (mto \<lparr>mfrom = \<lparr>px = 4, py = 4\<rparr>, mto = \<lparr>px = 3, py = 4\<rparr>\<rparr>) = Inr None"
    by code_simp
  show ?thesis
    using soldier_rule[OF a _ _ t, of RED] a t
    by (simp add: enemyHalf_def forwardOrSideways_def forwardDir_def isValidPos_def)
qed

subsection \<open>The Cannon on the starting position\<close>

text \<open>
  Claim C3, as stated, fails: on the board of \<open>createInitialBoard\<close> exactly one piece,
  the BLACK Cannon on (1,2), stands between (1,7) and the BLACK Horse on (1,0), so
  \<open>isValidMove\<close> accepts the capture from (1,7) to (1,0).
\<close>

theorem cannon_captures_horse_counterexample:
  "createInitialBoard fixedRandom = Inr (startBoard fixedRandom) \<and>
   isValidMove (startBoard fixedRandom) \<lparr>mfrom = \<lparr>px = 1, py = 7\<rparr>, mto = \<lparr>px = 1, py = 0\<rparr>\<rparr> RED = Inr True"
proof -
  have "isValidMove (startBoard fixedRandom) \<lparr>mfrom = \<lparr>px = 1, py = 7\<rparr>, mto = \<lparr>px = 1, py = 0\<rparr>\<rparr> RED = Inr True"
    by code_simp
  then show ?thesis using createInitialBoard_eq by simp
qed

lemma cannon_one_screen:
  assumes "y \<in> {3, 4, 5, 6}"
  shows "isValidMove (put (startBoard rnd) 1 y t c) \<lparr>mfrom = \<lparr>px = 1, py = 7\<rparr>, mto = \<lparr>px = 1, py = 2\<rparr>\<rparr> RED = Inr True"
proof -
  have "isValidMove (put (startBoard rnd) 1 3 t c) \<lparr>mfrom = \<lparr>px = 1, py = 7\<rparr>, mto = \<lparr>px = 1, py = 2\<rparr>\<rparr> RED = Inr True"
    by code_simp
  moreover have "isValidMove (put (startBoard rnd) 1 4 t c) \<lparr>mfrom = \<lparr>px = 1, py = 7\<rparr>, mto = \<lparr>px = 1, py = 2\<rparr>\<rparr> RED = Inr True"
    by code_simp
  moreover have "isValidMove (put (startBoard rnd) 1 5 t c) \<lparr>mfrom = \<lparr>px = 1, py = 7\<rparr>, mto = \<lparr>px = 1, py = 2\<rparr>\<rparr> RED = Inr True"
    by code_simp
  moreover have "isValidMove (put (startBoard rnd) 1 6 t c) \<lparr>mfrom = \<lparr>px = 1, py = 7\<rparr>, mto = \<lparr>px = 1, py = 2\<rparr>\<rparr> RED = Inr True"
    by code_simp
  ultimately show ?thesis using assms by auto
qed

text \<open>
  Claim C3, amended. On the board of \<open>createInitialBoard\<close> the RED Cannon move from
  (1,7) to (1,0) is accepted (one screen) and is rejected once the screen on (1,2) is
  taken off; the move from (1,7) to (1,2) is rejected (no piece stands between) and is
  accepted once exactly one piece stands between, on any of the rows 3 to 6 of column 1.
\<close>

theorem cannon_on_initial_board:
  "createInitialBoard rnd = Inr (startBoard rnd) \<and>
   isValidMove (startBoard rnd) \<lparr>mfrom = \<lparr>px = 1, py = 7\<rparr>, mto = \<lparr>px = 1, py = 0\<rparr>\<rparr> RED = Inr True \<and>
   isValidMove (clearSquare (startBoard rnd) 1 2)
     \<lparr>mfrom = \<lparr>px = 1, py = 7\<rparr>, mto = \<lparr>px = 1, py = 0\<rparr>\<rparr> RED = Inr False \<and>
   isValidMove (startBoard rnd) \<lparr>mfrom = \<lparr>px = 1, py = 7\<rparr>, mto = \<lparr>px = 1, py = 2\<rparr>\<rparr> RED = Inr False \<and>
   (\<forall>y \<in> {3, 4, 5, 6}.
      isValidMove (put (startBoard rnd) 1 y t c)
        \<lparr>mfrom = \<lparr>px = 1, py = 7\<rparr>, mto = \<lparr>px = 1, py = 2\<rparr>\<rparr> RED = Inr True)"
proof -
  have "isValidMove (startBoard rnd) \<lparr>mfrom = \<lparr>px = 1, py = 7\<rparr>, mto = \<lparr>px = 1, py = 0\<rparr>\<rparr> RED = Inr True"
    by code_simp
  moreover have "isValidMove (clearSquare (startBoard rnd) 1 2)
     \<lparr>mfrom = \<lparr>px = 1, py = 7\<rparr>, mto = \<lparr>px = 1, py = 0\<rparr>\<rparr> RED = Inr False"
    by code_simp
  moreover have "isValidMove (startBoard rnd) \<lparr>mfrom = \<lparr>px = 1, py = 7\<rparr>, mto = \<lparr>px = 1, py = 2\<rparr>\<rparr> RED = Inr False"
    by code_simp
  ultimately show ?thesis using createInitialBoard_eq cannon_one_screen by blast
qed

theorem cannon_on_initial_board_witness:
  "(4::int) \<in> {3, 4, 5, 6} \<and>
   isValidMove (put (startBoard fixedRandom) 1 4 SOLDIER BLACK)
        \<lparr>mfrom = \<lparr>px = 1, py = 7\<rparr>, mto = \<lparr>px = 1, py = 2\<rparr>\<rparr> RED = Inr True \<and>
   isValidMove (startBoard fixedRandom) \<lparr>mfrom = \<lparr>px = 1, py = 7\<rparr>, mto = \<lparr>px = 1, py = 0\<rparr>\<rparr> RED = Inr True"
  using cannon_on_initial_board[of fixedRandom SOLDIER BLACK] by simp

subsection \<open>FEN of the starting position\<close>

text \<open>
  Claim C5. \<open>boardToFen\<close> of the board of \<open>createInitialBoard\<close>, with RED to move,
  is the starting FEN string, whatever \<open>Math.random()\<close> returned for the identifiers.
\<close>

theorem boardToFen_initial:
  "bindE (createInitialBoard rnd) (\<lambda>board. boardToFen board RED) =
     Inr ''rnbakabnr/9/1c5c1/p1p1p1p1p/9/9/P1P1P1P1P/1C5C1/9/RNBAKABNR w - - 0 1''"
proof -
  have "boardToFen (startBoard rnd) RED =
     Inr ''rnbakabnr/9/1c5c1/p1p1p1p1p/9/9/P1P1P1P1P/1C5C1/9/RNBAKABNR w - - 0 1''"
    by code_simp
  then show ?thesis by (simp add: createInitialBoard_eq)
qed

section \<open>Move application\<close>

subsection \<open>The store model computes the board value and leaves the old arrays alone\<close>

lemma copyRows_result:
  assumes "\<forall>r \<in> set rows. r < fresh s \<and> rowArrays s r \<noteq> None"
  shows "\<exists>s'. copyRows rows s = Inr ([fresh s ..< fresh s + length rows], s') \<and>
           fresh s' = fresh s + length rows \<and>
           boardArrays s' = boardArrays s \<and>
           (\<forall>r. r < fresh s \<longrightarrow> rowArrays s' r = rowArrays s r) \<and>
           (\<forall>i < length rows. rowArrays s' (fresh s + i) = rowArrays s (rows ! i)) \<and>
           (\<forall>r. fresh s + length rows \<le> r \<longrightarrow> rowArrays s' r = rowArrays s r)"
  using assms
proof (induction rows arbitrary: s)
  case Nil
  then show ?case by simp
next
  case (Cons r rs)
  from Cons.prems obtain row where row: "rowArrays s r = Some row" and rlt: "r < fresh s"
    by auto
  define s1 where "s1 = s\<lparr>rowArrays := (rowArrays s)(fresh s \<mapsto> row), fresh := fresh s + 1\<rparr>"
  have s1: "fresh s1 = fresh s + 1" "boardArrays s1 = boardArrays s"
    "\<And>q. q \<noteq> fresh s \<Longrightarrow> rowArrays s1 q = rowArrays s q"
    "rowArrays s1 (fresh s) = Some row"
    by (simp_all add: s1_def)
  have pre: "\<forall>q \<in> set rs. q < fresh s1 \<and> rowArrays s1 q \<noteq> None"
    using Cons.prems s1 by auto
  from Cons.IH[OF pre] obtain s' where
    c: "copyRows rs s1 = Inr ([fresh s1 ..< fresh s1 + length rs], s')"
    and f: "fresh s' = fresh s1 + length rs"
    and b: "boardArrays s' = boardArrays s1"
    and old: "\<forall>q. q < fresh s1 \<longrightarrow> rowArrays s' q = rowArrays s1 q"
    and new: "\<forall>i < length rs. rowArrays s' (fresh s1 + i) = rowArrays s1 (rs ! i)"
    and above: "\<forall>q. fresh s1 + length rs \<le> q \<longrightarrow> rowArrays s' q = rowArrays s1 q"
    by blast
  have eq: "[fresh s ..< fresh s + length (r # rs)] = fresh s # [fresh s1 ..< fresh s1 + length rs]"
    by (simp add: s1(1) upt_conv_Cons del: upt_Suc)
  have "copyRows (r # rs) s = bindE (copyRows rs s1) (\<lambda>(rs', s2). Inr (fresh s # rs', s2))"
    by (simp add: row newRow_def s1_def)
  then have res: "copyRows (r # rs) s = Inr ([fresh s ..< fresh s + length (r # rs)], s')"
    unfolding eq c by simp
  have newall: "rowArrays s' (fresh s + i) = rowArrays s ((r # rs) ! i)" if "i < length (r # rs)" for i
  proof (cases i)
    case 0
    then show ?thesis using old s1 row by simp
  next
    case (Suc j)
    then have j: "j < length rs" using that by simp
    have "rs ! j \<in> set rs" using j by simp
    then have "rs ! j \<noteq> fresh s" using Cons.prems by auto
    then show ?thesis using new j s1 Suc by simp
  qed
  have oldall: "rowArrays s' q = rowArrays s q" if "q < fresh s" for q
    using that old s1 by simp
  have aboveall: "rowArrays s' q = rowArrays s q" if "fresh s + length (r # rs) \<le> q" for q
    using that above s1 by simp
  show ?case using res f b s1(1,2) newall oldall aboveall by auto
qed

lemma map_fun_upd_distinct:
  assumes "distinct xs" "i < length xs"
  shows "map (\<lambda>r. the ((g(xs ! i \<mapsto> b)) r)) xs = (map (\<lambda>r. the (g r)) xs)[i := b]"
  using assms by (auto intro!: nth_equalityI simp: nth_list_update nth_eq_iff_index_eq)

lemma readCell_abs:
  assumes "\<forall>r \<in> set rows. rowArrays s r \<noteq> None"
  shows "readCell s rows y x = cell_at (map (\<lambda>r. the (rowArrays s r)) rows) y x"
proof (cases "0 \<le> y \<and> y < int (length rows)")
  case True
  then have i: "nat y < length rows" by linarith
  then have "rows ! nat y \<in> set rows" by (rule nth_mem)
  with assms obtain row where "rowArrays s (rows ! nat y) = Some row" by auto
  with True i show ?thesis by (simp add: readCell_def cell_at_def Let_def)
next
  case False
  then show ?thesis by (auto simp: readCell_def cell_at_def)
qed

lemma writeCell_abs:
  assumes "\<forall>r \<in> set rows. rowArrays s r \<noteq> None" "distinct rows"
  shows "case cellWrite (map (\<lambda>r. the (rowArrays s r)) rows) y x v of
           Inl e \<Rightarrow> writeCell s rows y x v = Inl e
         | Inr B' \<Rightarrow>
             \<exists>s'. writeCell s rows y x v = Inr s' \<and>
               map (\<lambda>r. the (rowArrays s' r)) rows = B' \<and>
               (\<forall>r \<in> set rows. rowArrays s' r \<noteq> None) \<and>
               (\<forall>r. r \<notin> set rows \<longrightarrow> rowArrays s' r = rowArrays s r) \<and>
               boardArrays s' = boardArrays s \<and> fresh s' = fresh s"
proof (cases "0 \<le> y \<and> y < int (length rows)")
  case False
  then show ?thesis by (auto simp: writeCell_def cellWrite_def)
next
  case True
  then have i: "nat y < length rows" by linarith
  then have mem: "rows ! nat y \<in> set rows" by (rule nth_mem)
  from mem assms obtain row where row: "rowArrays s (rows ! nat y) = Some row" by auto
  show ?thesis
  proof (cases "rowWrite row x v")
    case (Inl e)
    then show ?thesis using True row i by (simp add: writeCell_def cellWrite_def)
  next
    case (Inr row')
    have "map (\<lambda>r. the (((rowArrays s)(rows ! nat y \<mapsto> row')) r)) rows =
        (map (\<lambda>r. the (rowArrays s r)) rows)[nat y := row']"
      using map_fun_upd_distinct[OF assms(2) i] .
    then show ?thesis
      using True row Inr assms(1) mem i by (auto simp: writeCell_def cellWrite_def)
  qed
qed

lemma boardOf_Some:
  "boardOf s board = Some B \<longleftrightarrow>
     (\<exists>rows. boardArrays s board = Some rows \<and> (\<forall>r \<in> set rows. rowArrays s r \<noteq> None) \<and>
        B = map (\<lambda>r. the (rowArrays s r)) rows)"
  by (auto simp: boardOf_def list_all_iff split: option.splits)

lemma simulateMoveS_refines:
  assumes "wf_store s" "boardOf s board = Some B"
  shows "case simulateMove B m of
           Inl e \<Rightarrow> simulateMoveS s board m = Inl e
         | Inr B' \<Rightarrow>
             \<exists>newBoard s'. simulateMoveS s board m = Inr (newBoard, s') \<and>
               boardOf s' newBoard = Some B' \<and>
               (\<forall>r < fresh s. rowArrays s' r = rowArrays s r \<and>
                               boardArrays s' r = boardArrays s r)"
proof -
  from assms(2) obtain rows where rows: "boardArrays s board = Some rows"
    and present: "\<forall>r \<in> set rows. rowArrays s r \<noteq> None"
    and B: "B = map (\<lambda>r. the (rowArrays s r)) rows"
    by (auto simp: boardOf_Some)
  have pre: "\<forall>r \<in> set rows. r < fresh s \<and> rowArrays s r \<noteq> None"
    using present assms(1) by (auto simp: wf_store_def)
  let ?new = "[fresh s ..< fresh s + length rows]"
  from copyRows_result[OF pre] obtain s1 where
    c: "copyRows rows s = Inr (?new, s1)"
    and f1: "fresh s1 = fresh s + length rows"
    and b1: "boardArrays s1 = boardArrays s"
    and old1: "\<forall>r. r < fresh s \<longrightarrow> rowArrays s1 r = rowArrays s r"
    and new1: "\<forall>i < length rows. rowArrays s1 (fresh s + i) = rowArrays s (rows ! i)"
    by blast
  define s2 where "s2 = s1\<lparr>boardArrays := (boardArrays s1)(fresh s1 \<mapsto> ?new), fresh := fresh s1 + 1\<rparr>"
  have r2: "rowArrays s2 = rowArrays s1" by (simp add: s2_def)
  have present2: "\<forall>r \<in> set ?new. rowArrays s2 r \<noteq> None"
  proof
    fix r assume "r \<in> set ?new"
    then obtain i where "i < length rows" "r = fresh s + i"
      by (auto simp: nat_le_iff_add)
    then show "rowArrays s2 r \<noteq> None" using new1 present r2 by simp
  qed
  have abs2: "map (\<lambda>r. the (rowArrays s2 r)) ?new = B"
    unfolding B r2 using new1 by (auto intro!: nth_equalityI)
  have dist: "distinct ?new" by simp
  have rd: "readCell s2 ?new (py (mfrom m)) (px (mfrom m)) = cell_at B (py (mfrom m)) (px (mfrom m))"
    using readCell_abs[OF present2] abs2 by simp
  have sm: "simulateMoveS s board m =
      bindE (cell_at B (py (mfrom m)) (px (mfrom m))) (\<lambda>v.
      bindE (writeCell s2 ?new (py (mto m)) (px (mto m)) v) (\<lambda>s3.
      bindE (writeCell s3 ?new (py (mfrom m)) (px (mfrom m)) None) (\<lambda>s4.
        Inr (fresh s1, s4))))"
    by (simp only: simulateMoveS_def rows option.case c bindE_Inr prod.case Let_def
          s2_def[symmetric] rd)
  have pm: "simulateMove B m =
      bindE (cell_at B (py (mfrom m)) (px (mfrom m))) (\<lambda>v.
      bindE (cellWrite B (py (mto m)) (px (mto m)) v) (\<lambda>newBoard.
      cellWrite newBoard (py (mfrom m)) (px (mfrom m)) None))"
    by (simp add: simulateMove_def)
  show ?thesis
  proof (cases "cell_at B (py (mfrom m)) (px (mfrom m))")
    case (Inl e)
    then show ?thesis by (simp add: sm pm)
  next
    case v: (Inr v)
    show ?thesis
    proof (cases "cellWrite B (py (mto m)) (px (mto m)) v")
      case (Inl e)
      then have "writeCell s2 ?new (py (mto m)) (px (mto m)) v = Inl e"
        using writeCell_abs[OF present2 dist, of "py (mto m)" "px (mto m)" v] abs2 by simp
      then show ?thesis using Inl v by (simp add: sm pm)
    next
      case B1: (Inr B1)
      then obtain s3 where w3: "writeCell s2 ?new (py (mto m)) (px (mto m)) v = Inr s3"
        and abs3: "map (\<lambda>r. the (rowArrays s3 r)) ?new = B1"
        and present3: "\<forall>r \<in> set ?new. rowArrays s3 r \<noteq> None"
        and old3: "\<forall>r. r \<notin> set ?new \<longrightarrow> rowArrays s3 r = rowArrays s2 r"
        and b3: "boardArrays s3 = boardArrays s2"
        using writeCell_abs[OF present2 dist, of "py (mto m)" "px (mto m)" v] abs2 by auto
      show ?thesis
      proof (cases "cellWrite B1 (py (mfrom m)) (px (mfrom m)) None")
        case (Inl e)
        then have "writeCell s3 ?new (py (mfrom m)) (px (mfrom m)) None = Inl e"
          using writeCell_abs[OF present3 dist, of "py (mfrom m)" "px (mfrom m)" None] abs3 by simp
        then show ?thesis using Inl v B1 w3 by (simp add: sm pm)
      next
        case B2: (Inr B2)
        then obtain s4 where w4: "writeCell s3 ?new (py (mfrom m)) (px (mfrom m)) None = Inr s4"
          and abs4: "map (\<lambda>r. the (rowArrays s4 r)) ?new = B2"
          and present4: "\<forall>r \<in> set ?new. rowArrays s4 r \<noteq> None"
          and old4: "\<forall>r. r \<notin> set ?new \<longrightarrow> rowArrays s4 r = rowArrays s3 r"
          and b4: "boardArrays s4 = boardArrays s3"
          using writeCell_abs[OF present3 dist, of "py (mfrom m)" "px (mfrom m)" None] abs3 by auto
        have res: "simulateMoveS s board m = Inr (fresh s1, s4)"
          using v w3 w4 by (simp add: sm)
        have bo: "boardArrays s4 (fresh s1) = Some ?new"
          by (simp add: b4 b3 s2_def)
        have abs: "boardOf s4 (fresh s1) = Some B2"
          using bo present4 abs4 by (auto simp: boardOf_Some)
        have frame: "rowArrays s4 r = rowArrays s r \<and> boardArrays s4 r = boardArrays s r"
          if "r < fresh s" for r
        proof -
          have "r \<notin> set ?new" using that by simp
          then have "rowArrays s4 r = rowArrays s r" using old4 old3 r2 old1 that by simp
          moreover have "boardArrays s4 r = boardArrays s r"
            using that f1 by (simp add: b4 b3 s2_def b1)
          ultimately show ?thesis by simp
        qed
        show ?thesis using res abs frame v B1 B2 by (simp add: pm)
      qed
    qed
  qed
qed


lemma getPieceAt_wf:
  "wf_board b \<Longrightarrow> getPieceAt b p = Inr (if isValidPos p then b ! nat (py p) ! nat (px p) else None)"
  by (simp add: getPieceAt_def isValidPos_def cell_at_wf)

lemma nth_cellset:
  assumes "wf_board b" "i < 10" "j < 9" "k < 10" "l < 9"
  shows "b[i := (b ! i)[j := v]] ! k ! l = (if k = i \<and> l = j then v else b ! k ! l)"
  using assms by (auto simp: wf_board_length wf_board_row nth_list_update)

subsection \<open>What \<open>simulateMove\<close> changes\<close>

text \<open>
  Claim C8, as stated for every move, fails: for a move whose \<open>from\<close> and \<open>to\<close> are
  the same square the second assignment empties the square, so \<open>to\<close> does not hold
  the piece that stood on \<open>from\<close>. On \<open>exampleBoard\<close> the Soldier on (4,4) is lost.
\<close>

theorem simulateMove_same_square_counterexample:
  "getPieceAt exampleBoard \<lparr>px = 4, py = 4\<rparr> = Inr (Some \<lparr>ptype = SOLDIER, pcolor = RED, pid = None\<rparr>) \<and>
   simulateMove exampleBoard \<lparr>mfrom = \<lparr>px = 4, py = 4\<rparr>, mto = \<lparr>px = 4, py = 4\<rparr>\<rparr> =
     Inr (clearSquare exampleBoard 4 4) \<and>
   getPieceAt (clearSquare exampleBoard 4 4) \<lparr>px = 4, py = 4\<rparr> = Inr None"
  by code_simp

text \<open>
  Claim C8, amended. For every 10 by 9 board and every move between two different
  squares of the grid, \<open>simulateMove\<close> returns a 10 by 9 board whose \<open>to\<close> cell holds
  what the \<open>from\<close> cell held, whose \<open>from\<close> cell is empty and whose other cells are
  those of the input. Run on a store, the call returns a new array that stands for
  that board, and every array that existed before the call, the input board among
  them, is unchanged.
\<close>

theorem simulateMove_frame:
  assumes "wf_board B" "isValidPos (mfrom m)" "isValidPos (mto m)"
    and "\<not> isPosEqual (mfrom m) (mto m)"
  shows "\<exists>B'. simulateMove B m = Inr B' \<and> wf_board B' \<and>
     getPieceAt B' (mto m) = getPieceAt B (mfrom m) \<and>
     getPieceAt B' (mfrom m) = Inr None \<and>
     (\<forall>p. \<not> isPosEqual p (mfrom m) \<and> \<not> isPosEqual p (mto m) \<longrightarrow>
          getPieceAt B' p = getPieceAt B p) \<and>
     (\<forall>s board. wf_store s \<and> boardOf s board = Some B \<longrightarrow>
        (\<exists>newBoard s'. simulateMoveS s board m = Inr (newBoard, s') \<and>
           boardOf s' newBoard = Some B' \<and> boardOf s' board = Some B \<and>
           (\<forall>r < fresh s. rowArrays s' r = rowArrays s r \<and>
                           boardArrays s' r = boardArrays s r)))"
proof -
  let ?fx = "nat (px (mfrom m))" and ?fy = "nat (py (mfrom m))"
  let ?tx = "nat (px (mto m))" and ?ty = "nat (py (mto m))"
  let ?B1 = "B[?ty := (B ! ?ty)[?tx := B ! ?fy ! ?fx]]"
  let ?B' = "?B1[?fy := (?B1 ! ?fy)[?fx := None]]"
  have rng: "?fx < 9" "?fy < 10" "?tx < 9" "?ty < 10"
    using assms(2,3) by (auto simp: isValidPos_def)
  have ne: "\<not> (?fx = ?tx \<and> ?fy = ?ty)"
    using assms(2,3,4) by (auto simp: isValidPos_def isPosEqual_def)
  have eq: "simulateMove B m = Inr ?B'"
    using simulateMove_wf_eq[OF assms(1-3)] by (simp add: Let_def)
  have wf1: "wf_board ?B1" using assms(1) rng by (simp add: wf_board_cellset)
  have wf': "wf_board ?B'" using wf1 rng by (simp add: wf_board_cellset)
  have cell: "?B' ! k ! l =
      (if k = ?fy \<and> l = ?fx then None
       else if k = ?ty \<and> l = ?tx then B ! ?fy ! ?fx else B ! k ! l)"
    if "k < 10" "l < 9" for k l
    using that rng by (simp add: nth_cellset[OF wf1] nth_cellset[OF assms(1)])
  have to: "getPieceAt ?B' (mto m) = getPieceAt B (mfrom m)"
    using assms(2,3) rng ne by (auto simp: getPieceAt_wf[OF wf'] getPieceAt_wf[OF assms(1)] cell)
  have "from": "getPieceAt ?B' (mfrom m) = Inr None"
    using assms(2,3) rng by (simp add: getPieceAt_wf[OF wf'] cell)
  have other: "getPieceAt ?B' p = getPieceAt B p"
    if "\<not> isPosEqual p (mfrom m) \<and> \<not> isPosEqual p (mto m)" for p
  proof (cases "isValidPos p")
    case False
    then show ?thesis by (simp add: getPieceAt_def)
  next
    case True
    then have "nat (py p) < 10" "nat (px p) < 9" by (auto simp: isValidPos_def)
    moreover have "\<not> (nat (py p) = ?fy \<and> nat (px p) = ?fx)" "\<not> (nat (py p) = ?ty \<and> nat (px p) = ?tx)"
      using that True assms(2,3) by (auto simp: isValidPos_def isPosEqual_def)
    ultimately show ?thesis
      using True by (auto simp: getPieceAt_wf[OF wf'] getPieceAt_wf[OF assms(1)] cell)
  qed
  have st: "\<exists>newBoard s'. simulateMoveS s board m = Inr (newBoard, s') \<and>
           boardOf s' newBoard = Some ?B' \<and> boardOf s' board = Some B \<and>
           (\<forall>r < fresh s. rowArrays s' r = rowArrays s r \<and> boardArrays s' r = boardArrays s r)"
    if "wf_store s \<and> boardOf s board = Some B" for s board
  proof -
    from that have ws: "wf_store s" and bo: "boardOf s board = Some B" by simp_all
    from simulateMoveS_refines[OF ws bo, of m] eq obtain newBoard s' where
      r: "simulateMoveS s board m = Inr (newBoard, s')" "boardOf s' newBoard = Some ?B'"
      and fr: "\<forall>r < fresh s. rowArrays s' r = rowArrays s r \<and> boardArrays s' r = boardArrays s r"
      by auto
    from bo obtain rows where rows: "boardArrays s board = Some rows"
      and present: "\<forall>r \<in> set rows. rowArrays s r \<noteq> None"
      and B: "B = map (\<lambda>r. the (rowArrays s r)) rows"
      by (auto simp: boardOf_Some)
    have "board < fresh s" using ws rows by (auto simp: wf_store_def)
    then have b': "boardArrays s' board = Some rows" using fr rows by simp
    have old: "\<forall>r \<in> set rows. rowArrays s' r = rowArrays s r"
      using present ws fr by (auto simp: wf_store_def)
    have "boardOf s' board = Some B"
      unfolding boardOf_Some using b' old present B by auto
    then show ?thesis using r fr by blast
  qed
  show ?thesis using eq wf' to "from" other st by blast
qed

lemma exampleStore_wf: "wf_store exampleStore"
  by (auto simp: wf_store_def exampleStore_def split: if_splits)

lemma exampleStore_board: "boardOf exampleStore 10 = Some exampleBoard"
  by code_simp

theorem simulateMove_frame_witness:
  "wf_board exampleBoard \<and> isValidPos \<lparr>px = 4, py = 4\<rparr> \<and> isValidPos \<lparr>px = 4, py = 3\<rparr> \<and>
   \<not> isPosEqual \<lparr>px = 4, py = 4\<rparr> \<lparr>px = 4, py = 3\<rparr> \<and>
   wf_store exampleStore \<and> boardOf exampleStore 10 = Some exampleBoard \<and>
   (\<exists>B'. simulateMove exampleBoard \<lparr>mfrom = \<lparr>px = 4, py = 4\<rparr>, mto = \<lparr>px = 4, py = 3\<rparr>\<rparr> = Inr B' \<and>
      getPieceAt B' \<lparr>px = 4, py = 3\<rparr> = Inr (Some \<lparr>ptype = SOLDIER, pcolor = RED, pid = None\<rparr>) \<and>
      getPieceAt B' \<lparr>px = 4, py = 4\<rparr> = Inr None \<and>
      getPieceAt B' \<lparr>px = 3, py = 0\<rparr> = getPieceAt exampleBoard \<lparr>px = 3, py = 0\<rparr> \<and>
      (\<exists>newBoard s'. simulateMoveS exampleStore 10
           \<lparr>mfrom = \<lparr>px = 4, py = 4\<rparr>, mto = \<lparr>px = 4, py = 3\<rparr>\<rparr> = Inr (newBoard, s') \<and>
         boardOf s' newBoard = Some B' \<and> boardOf s' 10 = Some exampleBoard))"
proof -
  let ?m = "\<lparr>mfrom = \<lparr>px = 4, py = 4\<rparr>, mto = \<lparr>px = 4, py = 3\<rparr>\<rparr>"
  have v: "isValidPos (mfrom ?m)" "isValidPos (mto ?m)" "\<not> isPosEqual (mfrom ?m) (mto ?m)"
    by (simp_all add: isValidPos_def isPosEqual_def)
  have g: "getPieceAt exampleBoard \<lparr>px = 4, py = 4\<rparr> = Inr (Some \<lparr>ptype = SOLDIER, pcolor = RED, pid = None\<rparr>)"
    by code_simp
  have o: "\<not> isPosEqual \<lparr>px = 3, py = 0\<rparr> (mfrom ?m) \<and> \<not> isPosEqual \<lparr>px = 3, py = 0\<rparr> (mto ?m)"
    by (simp add: isPosEqual_def)
  from simulateMove_frame[OF exampleBoard_wf v] obtain B' where
    B': "simulateMove exampleBoard ?m = Inr B'"
    "getPieceAt B' (mto ?m) = getPieceAt exampleBoard (mfrom ?m)"
    "getPieceAt B' (mfrom ?m) = Inr None"
    "\<forall>p. \<not> isPosEqual p (mfrom ?m) \<and> \<not> isPosEqual p (mto ?m) \<longrightarrow>
          getPieceAt B' p = getPieceAt exampleBoard p"
    "\<forall>s board. wf_store s \<and> boardOf s board = Some exampleBoard \<longrightarrow>
        (\<exists>newBoard s'. simulateMoveS s board ?m = Inr (newBoard, s') \<and>
           boardOf s' newBoard = Some B' \<and> boardOf s' board = Some exampleBoard \<and>
           (\<forall>r < fresh s. rowArrays s' r = rowArrays s r \<and>
                           boardArrays s' r = boardArrays s r))"
    by blast
  from B'(5) exampleStore_wf exampleStore_board obtain newBoard s' where
    "simulateMoveS exampleStore 10 ?m = Inr (newBoard, s')" "boardOf s' newBoard = Some B'"
    "boardOf s' 10 = Some exampleBoard" by blast
  then show ?thesis
    using exampleBoard_wf v exampleStore_wf exampleStore_board B'(1,2,3) B'(4)[rule_format, OF o] g
    by auto
qed

section \<open>The search\<close>

lemma evaluateBoard_total:
  assumes "wf_board b"
  shows "\<exists>v. evaluateBoard b = Inr v"
proof -
  have "\<exists>v. forEachE (\<lambda>(x, y) score.
       bindE (cell_at b y x) (\<lambda>p.
         case p of
           None \<Rightarrow> Inr score
         | Some pc \<Rightarrow>
             let val = PIECE_VALUES (ptype pc) + getPositionBonus pc x y
             in Inr (score + (if pcolor pc = RED then val else - val)))) squares 0 = Inr v \<and> True"
  proof (rule forEachE_total[where P = "\<lambda>_. True"])
    fix a :: "int \<times> int" and t :: int
    assume asq: "a \<in> set squares"
    obtain x y where a: "a = (x, y)" by (cases a)
    have xy: "0 \<le> y" "y \<le> 9" using asq by (simp_all add: a squares_iff)
    show "\<exists>t'. (case a of (x, y) \<Rightarrow> \<lambda>score.
       bindE (cell_at b y x) (\<lambda>p.
         case p of
           None \<Rightarrow> Inr score
         | Some pc \<Rightarrow>
             let val = PIECE_VALUES (ptype pc) + getPositionBonus pc x y
             in Inr (score + (if pcolor pc = RED then val else - val)))) t = Inr t' \<and> True"
      using xy assms by (auto simp: a cell_at_wf Let_def split: option.splits)
  qed simp
  then show ?thesis by (simp add: evaluateBoard_def)
qed

lemma mapE_total:
  "(\<And>a. a \<in> set as \<Longrightarrow> \<exists>b. f a = Inr b) \<Longrightarrow>
   \<exists>bs. mapE f as = Inr bs \<and> length bs = length as"
proof (induction as)
  case Nil
  then show ?case by simp
next
  case (Cons a as)
  then obtain b where b: "f a = Inr b" by (meson list.set_intros(1))
  from Cons obtain bs where "mapE f as = Inr bs" "length bs = length as" by auto
  with b show ?case by simp
qed

lemma sortMoves_total:
  assumes "wf_board b"
  shows "\<exists>ms'. sortMoves b ms = Inr ms' \<and> set ms' = set ms"
proof -
  have "\<exists>v. captureValue b m = Inr v" for m
  proof -
    obtain t where "getPieceAt b (mto m) = Inr t" using getPieceAt_total[OF assms] by blast
    then show ?thesis by (simp add: captureValue_def)
  qed
  then obtain vals where vals: "mapE (captureValue b) ms = Inr vals" "length vals = length ms"
    using mapE_total[of ms "captureValue b"] by blast
  have "set (map snd (sort_key (\<lambda>(val, m). - val) (zip vals ms))) = set (map snd (zip vals ms))"
    by simp
  also have "\<dots> = set ms" using vals(2) by (simp add: map_snd_zip)
  finally show ?thesis by (simp add: sortMoves_def vals(1))
qed

lemma lessN_Finite_Infinity [simp]: "lessN (Finite v) Infinity" "lessN NegInfinity (Finite v)"
  by simp_all

lemma minLoop_keeps:
  assumes "wf_board b" "rec_total rec" "moves_on_grid ms"
  shows "\<exists>v m. minLoop rec b alpha ms (Finite v0, Some m0, beta) = Inr (Finite v, Some m) \<and>
           (m = m0 \<or> m \<in> set ms)"
  using assms(3)
proof (induction ms arbitrary: v0 m0 beta)
  case Nil
  then show ?case by simp
next
  case (Cons mv rest)
  then have on: "isValidPos (mfrom mv)" "isValidPos (mto mv)" and rest: "moves_on_grid rest"
    by (simp_all add: moves_on_grid_def)
  obtain b' where b': "simulateMove b mv = Inr b'" "wf_board b'"
    using simulateMove_wf[OF assms(1) on] by blast
  obtain e r where r: "rec b' alpha beta = Inr (Finite e, r)"
    using assms(2) b'(2) unfolding rec_total_def by blast
  show ?case
  proof (cases "e < v0")
    case True
    from Cons.IH[OF rest, of e mv "minN beta (Finite e)"] True
    show ?thesis by (auto simp: b' r Let_def)
  next
    case False
    from Cons.IH[OF rest, of v0 m0 "minN beta (Finite e)"] False
    show ?thesis by (auto simp: b' r Let_def)
  qed
qed

lemma minLoop_result:
  assumes "wf_board b" "rec_total rec" "moves_on_grid ms" "ms \<noteq> []"
  shows "\<exists>v m. minLoop rec b alpha ms (Infinity, None, beta) = Inr (Finite v, Some m) \<and> m \<in> set ms"
proof -
  from assms(4) obtain mv rest where ms: "ms = mv # rest" by (cases ms) auto
  then have on: "isValidPos (mfrom mv)" "isValidPos (mto mv)" and rest: "moves_on_grid rest"
    using assms(3) by (simp_all add: moves_on_grid_def)
  obtain b' where b': "simulateMove b mv = Inr b'" "wf_board b'"
    using simulateMove_wf[OF assms(1) on] by blast
  obtain e r where r: "rec b' alpha beta = Inr (Finite e, r)"
    using assms(2) b'(2) unfolding rec_total_def by blast
  from minLoop_keeps[OF assms(1,2) rest, of alpha e mv "minN beta (Finite e)"]
  show ?thesis by (auto simp: ms b' r Let_def)
qed

lemma maxLoop_keeps:
  assumes "wf_board b" "rec_total rec" "moves_on_grid ms"
  shows "\<exists>v m. maxLoop rec b beta ms (Finite v0, Some m0, alpha) = Inr (Finite v, Some m) \<and>
           (m = m0 \<or> m \<in> set ms)"
  using assms(3)
proof (induction ms arbitrary: v0 m0 alpha)
  case Nil
  then show ?case by simp
next
  case (Cons mv rest)
  then have on: "isValidPos (mfrom mv)" "isValidPos (mto mv)" and rest: "moves_on_grid rest"
    by (simp_all add: moves_on_grid_def)
  obtain b' where b': "simulateMove b mv = Inr b'" "wf_board b'"
    using simulateMove_wf[OF assms(1) on] by blast
  obtain e r where r: "rec b' alpha beta = Inr (Finite e, r)"
    using assms(2) b'(2) unfolding rec_total_def by blast
  show ?case
  proof (cases "v0 < e")
    case True
    from Cons.IH[OF rest, of e mv "maxN alpha (Finite e)"] True
    show ?thesis by (auto simp: b' r Let_def)
  next
    case False
    from Cons.IH[OF rest, of v0 m0 "maxN alpha (Finite e)"] False
    show ?thesis by (auto simp: b' r Let_def)
  qed
qed

lemma maxLoop_result:
  assumes "wf_board b" "rec_total rec" "moves_on_grid ms" "ms \<noteq> []"
  shows "\<exists>v m. maxLoop rec b beta ms (NegInfinity, None, alpha) = Inr (Finite v, Some m) \<and> m \<in> set ms"
proof -
  from assms(4) obtain mv rest where ms: "ms = mv # rest" by (cases ms) auto
  then have on: "isValidPos (mfrom mv)" "isValidPos (mto mv)" and rest: "moves_on_grid rest"
    using assms(3) by (simp_all add: moves_on_grid_def)
  obtain b' where b': "simulateMove b mv = Inr b'" "wf_board b'"
    using simulateMove_wf[OF assms(1) on] by blast
  obtain e r where r: "rec b' alpha beta = Inr (Finite e, r)"
    using assms(2) b'(2) unfolding rec_total_def by blast
  from maxLoop_keeps[OF assms(1,2) rest, of beta e mv "maxN alpha (Finite e)"]
  show ?thesis by (auto simp: ms b' r Let_def)
qed

lemma getValidMoves_on_grid:
  assumes "getValidMoves b c = Inr ms"
  shows "moves_on_grid ms"
  using getValidMoves_sound[OF assms] isValidMove_True_valid
  unfolding moves_on_grid_def legalFor_iff by blast

lemma minimax_Suc:
  assumes "wf_board b" "rec_total (\<lambda>b a be. minimax d b a be False)"
    "rec_total (\<lambda>b a be. minimax d b a be True)"
    and "getValidMoves b (if isMax then RED else BLACK) = Inr ms"
  shows "\<exists>v r. minimax (Suc d) b alpha beta isMax = Inr (Finite v, r) \<and>
           (r = None \<longleftrightarrow> ms = []) \<and> (\<forall>m. r = Some m \<longrightarrow> m \<in> set ms)"
proof (cases "ms = []")
  case True
  obtain chk where "isCheck b (if isMax then RED else BLACK) = Inr chk"
    using isCheck_total[OF assms(1)] by blast
  then show ?thesis using True assms(4) by (auto simp: Let_def)
next
  case False
  obtain ms' where ms': "sortMoves b ms = Inr ms'" "set ms' = set ms"
    using sortMoves_total[OF assms(1)] by blast
  have ne: "ms' \<noteq> []" using ms'(2) False by auto
  have on: "moves_on_grid ms'"
    using getValidMoves_on_grid[OF assms(4)] ms'(2) by (simp add: moves_on_grid_def)
  show ?thesis
  proof (cases isMax)
    case True
    from maxLoop_result[OF assms(1,2) on ne, of beta alpha]
    show ?thesis using True False assms(4) ms' by (auto simp: Let_def)
  next
    case F: False
    from minLoop_result[OF assms(1,3) on ne, of alpha beta]
    show ?thesis using F False assms(4) ms' by (auto simp: Let_def)
  qed
qed

lemma minimax_total: "rec_total (\<lambda>b a be. minimax d b a be isMax)"
proof (induction d arbitrary: isMax)
  case 0
  show ?case
    unfolding rec_total_def using evaluateBoard_total by fastforce
next
  case (Suc d)
  show ?case
    unfolding rec_total_def
  proof (intro allI impI)
    fix b a be assume wf: "wf_board b"
    obtain ms where ms: "getValidMoves b (if isMax then RED else BLACK) = Inr ms"
      using getValidMoves_total[OF wf] by blast
    from minimax_Suc[OF wf Suc Suc ms, of a be]
    show "\<exists>v mv. minimax (Suc d) b a be isMax = Inr (Finite v, mv)" by blast
  qed
qed

text \<open>
  Claim C9, as stated for every depth, fails at depth 0: \<open>minimax\<close> returns the
  static evaluation with no move, so \<open>getBestMove\<close> returns \<open>null\<close> although BLACK
  has two legal moves on \<open>exampleBoard\<close>.
\<close>

theorem getBestMove_zero_depth_counterexample:
  "getValidMoves exampleBoard BLACK =
     Inr [\<lparr>mfrom = \<lparr>px = 3, py = 0\<rparr>, mto = \<lparr>px = 4, py = 0\<rparr>\<rparr>,
          \<lparr>mfrom = \<lparr>px = 3, py = 0\<rparr>, mto = \<lparr>px = 3, py = 1\<rparr>\<rparr>] \<and>
   getBestMove exampleBoard 0 = Inr None"
proof -
  have "getBestMove exampleBoard 0 = Inr None" by code_simp
  then show ?thesis using exampleBoard_moves by simp
qed

text \<open>
  Claim C9, amended. For every 10 by 9 board and every depth of at least 1,
  \<open>getBestMove\<close> returns (it does not throw), it returns \<open>null\<close> exactly when
  \<open>getValidMoves\<close> gives BLACK no move, and a move it returns is one of BLACK's legal
  moves.
\<close>

theorem getBestMove_none_iff:
  assumes "wf_board B" "0 < d"
  shows "\<exists>ms r. getValidMoves B BLACK = Inr ms \<and> getBestMove B d = Inr r \<and>
           (r = None \<longleftrightarrow> ms = []) \<and> (\<forall>m. r = Some m \<longrightarrow> m \<in> set ms)"
proof -
  from assms(2) obtain d' where d: "d = Suc d'" by (cases d) auto
  obtain ms where ms: "getValidMoves B (if False then RED else BLACK) = Inr ms"
    using getValidMoves_total[OF assms(1)] by blast
  from minimax_Suc[OF assms(1) minimax_total minimax_total ms, of d' NegInfinity Infinity]
  obtain v r where "minimax (Suc d') B NegInfinity Infinity False = Inr (Finite v, r)"
    "r = None \<longleftrightarrow> ms = []" "\<forall>m. r = Some m \<longrightarrow> m \<in> set ms" by blast
  then show ?thesis using ms by (auto simp: getBestMove_def d)
qed

theorem getBestMove_none_iff_witness:
  "wf_board exampleBoard \<and> (0::nat) < 1 \<and>
   (\<exists>ms m. getValidMoves exampleBoard BLACK = Inr ms \<and> ms \<noteq> [] \<and>
      getBestMove exampleBoard 1 = Inr (Some m) \<and> m \<in> set ms) \<and>
   wf_board mateBoard \<and> getValidMoves mateBoard BLACK = Inr [] \<and>
   getBestMove mateBoard 1 = Inr None"
proof -
  have "\<exists>ms m. getValidMoves exampleBoard BLACK = Inr ms \<and> ms \<noteq> [] \<and>
      getBestMove exampleBoard 1 = Inr (Some m) \<and> m \<in> set ms"
    using getBestMove_none_iff[OF exampleBoard_wf, of 1] exampleBoard_moves by auto
  moreover have "getBestMove mateBoard 1 = Inr None"
    using getBestMove_none_iff[OF mateBoard_wf, of 1] mateBoard_moves by auto
  ultimately show ?thesis using exampleBoard_wf mateBoard_wf mateBoard_moves by simp
qed

section \<open>The FEN converter\<close>

subsection \<open>\<open>boardToFen\<close> writes the rows in order\<close>

lemma list10:
  assumes "length (r :: 'a list) = 10"
  obtains r0 r1 r2 r3 r4 r5 r6 r7 r8 r9 where "r = [r0, r1, r2, r3, r4, r5, r6, r7, r8, r9]"
  using assms by (auto simp: numeral_eq_Suc length_Suc_conv)

lemma upto_0_8: "[0..8] = [0, 1, 2, 3, 4, 5, 6, 7, 8 :: int]"
  by code_simp

lemma upto_0_9: "[0..9] = [0, 1, 2, 3, 4, 5, 6, 7, 8, 9 :: int]"
  by code_simp

text \<open>One step of the inner loop as a function of the cell.\<close>

lemma fenCell_wf:
  assumes "wf_board b" "0 \<le> y" "y \<le> 9" "0 \<le> x" "x \<le> 8"
  shows "fenCell b y x (fen, e) =
     Inr (case b ! nat y ! nat x of
            None \<Rightarrow> (fen, e + 1)
          | Some p \<Rightarrow> (fen @ flushCount e @ [pieceChar p], 0))"
  using assms
  by (auto simp: fenCell_def cell_at_wf flushCount_def pieceChar_def Let_def split: option.splits)

lemma encRow_step:
  "(case c of None \<Rightarrow> (fen, e + 1) | Some p \<Rightarrow> (fen @ flushCount e @ [pieceChar p], 0)) = (fen', e')
   \<Longrightarrow> fen' @ encRow cs e' = fen @ encRow (c # cs) e"
  by (cases c) auto

lemma forEachE_fenCell:
  assumes "wf_board b" "0 \<le> y" "y \<le> 9" "int i + int (length cs) = 9"
    and "\<And>j. j < length cs \<Longrightarrow> b ! nat y ! (i + j) = cs ! j"
  shows "\<exists>fen' e'. forEachE (fenCell b y) (map int [i ..< 9]) (fen, e) = Inr (fen', e') \<and>
           fen' @ flushCount e' = fen @ encRow cs e"
  using assms(4,5)
proof (induction cs arbitrary: i fen e)
  case Nil
  then show ?case by simp
next
  case (Cons c cs)
  then have i: "i < 9" by simp
  have c: "b ! nat y ! i = c" using Cons.prems(2)[of 0] by simp
  obtain fen1 e1 where st: "(case c of None \<Rightarrow> (fen, e + 1)
        | Some p \<Rightarrow> (fen @ flushCount e @ [pieceChar p], 0)) = (fen1, e1)"
    by (cases "(case c of None \<Rightarrow> (fen, e + 1)
        | Some p \<Rightarrow> (fen @ flushCount e @ [pieceChar p], 0))") auto
  have step: "fenCell b y (int i) (fen, e) = Inr (fen1, e1)"
    using fenCell_wf[OF assms(1-3), of "int i" fen e] i c st by simp
  have "\<exists>fen' e'. forEachE (fenCell b y) (map int [Suc i ..< 9]) (fen1, e1) = Inr (fen', e') \<and>
           fen' @ flushCount e' = fen1 @ encRow cs e1"
  proof (rule Cons.IH)
    show "int (Suc i) + int (length cs) = 9" using Cons.prems(1) by simp
    show "\<And>j. j < length cs \<Longrightarrow> b ! nat y ! (Suc i + j) = cs ! j"
      using Cons.prems(2)[of "Suc j" for j] by simp
  qed
  then obtain fen' e' where
    rest: "forEachE (fenCell b y) (map int [Suc i ..< 9]) (fen1, e1) = Inr (fen', e')"
    and out: "fen' @ flushCount e' = fen1 @ encRow cs e1" by blast
  have "forEachE (fenCell b y) (map int [i ..< 9]) (fen, e) = Inr (fen', e')"
    unfolding upt_conv_Cons[OF i] using step rest by simp
  then show ?case using out encRow_step[OF st, of cs] by simp
qed

lemma map_int_upt9: "map int [0 ..< 9] = [0..8]"
  by code_simp

lemma fenRow_wf:
  assumes "wf_board b" "0 \<le> y" "y \<le> 9"
  shows "fenRow b y fen = Inr (fen @ encRow (b ! nat y) 0 @ (if y < 9 then ''/'' else []))"
proof -
  have len: "length (b ! nat y) = 9" using assms by (simp add: wf_board_row)
  from forEachE_fenCell[OF assms, of 0 "b ! nat y" fen 0] len
  obtain fen' e' where loop: "forEachE (fenCell b y) [0..8] (fen, 0) = Inr (fen', e')"
    and out: "fen' @ flushCount e' = fen @ encRow (b ! nat y) 0"
    by (auto simp: map_int_upt9)
  have "fenRow b y fen = Inr ((fen' @ flushCount e') @ (if y < 9 then ''/'' else []))"
    by (simp add: fenRow_def loop Let_def flushCount_def)
  then show ?thesis unfolding out by simp
qed

lemma boardToFen_wf:
  assumes "wf_board b"
  shows "boardToFen b c =
     Inr (encBoard b @ '' '' @ [if c = RED then CHR ''w'' else CHR ''b''] @ '' - - 0 1'')"
proof -
  obtain r0 r1 r2 r3 r4 r5 r6 r7 r8 r9 where b: "b = [r0, r1, r2, r3, r4, r5, r6, r7, r8, r9]"
    using list10[OF wf_board_length[OF assms]] by blast
  have rows: "fenRow b y fen = Inr (fen @ encRow (b ! nat y) 0 @ (if y < 9 then ''/'' else []))"
    if "0 \<le> y" "y \<le> 9" for y fen
    using fenRow_wf[OF assms that] .
  have "forEachE (fenRow b) [0..9] [] = Inr (encBoard b)"
    unfolding upto_0_9 by (simp add: rows) (simp add: b)
  then show ?thesis by (simp add: boardToFen_def)
qed

subsection \<open>The characters of the FEN text, and \<open>split\<close>\<close>

lemma digit_char:
  assumes "n < 10"
  shows "isDigit (char_of (48 + n))" "parseInt (char_of (48 + n)) = int n"
    "char_of (48 + n) \<noteq> CHR ''/''" "char_of (48 + n) \<noteq> CHR '' ''"
proof -
  have v: "(of_char (char_of (48 + n) :: char) :: nat) = 48 + n" using assms by simp
  show "isDigit (char_of (48 + n))" using v assms by (simp add: isDigit_def)
  show "parseInt (char_of (48 + n)) = int n" using v by (simp add: parseInt_def)
  show "char_of (48 + n) \<noteq> CHR ''/''"
  proof
    assume "char_of (48 + n) = CHR ''/''"
    then have "(of_char (char_of (48 + n) :: char) :: nat) = of_char (CHR ''/'')" by (rule arg_cong)
    then show False unfolding v by simp
  qed
  show "char_of (48 + n) \<noteq> CHR '' ''"
  proof
    assume "char_of (48 + n) = CHR '' ''"
    then have "(of_char (char_of (48 + n) :: char) :: nat) = of_char (CHR '' '')" by (rule arg_cong)
    then show False unfolding v by simp
  qed
qed

lemma showNat_digit: "n < 10 \<Longrightarrow> showNat n = [char_of (48 + n)]"
  by simp

lemma typeChar_upper:
  "toUpperCase (typeChar t) = (case t of GENERAL \<Rightarrow> CHR ''K'' | ADVISOR \<Rightarrow> CHR ''A''
     | ELEPHANT \<Rightarrow> CHR ''B'' | HORSE \<Rightarrow> CHR ''N'' | ROOK \<Rightarrow> CHR ''R'' | CANNON \<Rightarrow> CHR ''C''
     | SOLDIER \<Rightarrow> CHR ''P'')"
  by (cases t) (simp_all add: typeChar_def toUpperCase_def char_of_eq_iff)

lemma typeChar_lower: "toLowerCase (typeChar t) = typeChar t"
  by (cases t) (simp_all add: typeChar_def toLowerCase_def)

lemma pieceChar_RED:
  assumes "pcolor p = RED"
  shows "\<not> isDigit (pieceChar p)" "pieceChar p \<noteq> CHR ''/''" "pieceChar p \<noteq> CHR '' ''"
    "charToType (toLowerCase (pieceChar p)) = Some (ptype p)"
    "pieceChar p = toUpperCase (pieceChar p)"
proof -
  have pc: "pieceChar p = toUpperCase (typeChar (ptype p))" using assms by (simp add: pieceChar_def)
  show "\<not> isDigit (pieceChar p)"
    unfolding pc typeChar_upper by (cases "ptype p") (simp_all add: isDigit_def)
  show "pieceChar p \<noteq> CHR ''/''"
    unfolding pc typeChar_upper by (cases "ptype p") simp_all
  show "pieceChar p \<noteq> CHR '' ''"
    unfolding pc typeChar_upper by (cases "ptype p") simp_all
  show "charToType (toLowerCase (pieceChar p)) = Some (ptype p)"
    unfolding pc typeChar_upper
    by (cases "ptype p") (simp_all add: toLowerCase_def char_of_eq_iff charToType_def)
  show "pieceChar p = toUpperCase (pieceChar p)"
    unfolding pc typeChar_upper
    by (cases "ptype p") (simp_all add: toUpperCase_def)
qed

lemma pieceChar_BLACK:
  assumes "pcolor p = BLACK"
  shows "\<not> isDigit (pieceChar p)" "pieceChar p \<noteq> CHR ''/''" "pieceChar p \<noteq> CHR '' ''"
    "charToType (toLowerCase (pieceChar p)) = Some (ptype p)"
    "pieceChar p \<noteq> toUpperCase (pieceChar p)"
proof -
  have pc: "pieceChar p = typeChar (ptype p)"
    using assms by (simp add: pieceChar_def typeChar_lower)
  show "\<not> isDigit (pieceChar p)"
    unfolding pc by (cases "ptype p") (simp_all add: typeChar_def isDigit_def)
  show "pieceChar p \<noteq> CHR ''/''"
    unfolding pc by (cases "ptype p") (simp_all add: typeChar_def)
  show "pieceChar p \<noteq> CHR '' ''"
    unfolding pc by (cases "ptype p") (simp_all add: typeChar_def)
  show "charToType (toLowerCase (pieceChar p)) = Some (ptype p)"
    unfolding pc typeChar_lower
    by (cases "ptype p") (simp_all add: typeChar_def charToType_def)
  show "pieceChar p \<noteq> toUpperCase (pieceChar p)"
    unfolding pc typeChar_upper
    by (cases "ptype p") (simp_all add: typeChar_def)
qed

lemma pieceChar_facts:
  "\<not> isDigit (pieceChar p)" "pieceChar p \<noteq> CHR ''/''" "pieceChar p \<noteq> CHR '' ''"
  "charToType (toLowerCase (pieceChar p)) = Some (ptype p)"
  "(if pieceChar p = toUpperCase (pieceChar p) then RED else BLACK) = pcolor p"
  using pieceChar_RED[of p] pieceChar_BLACK[of p] by (cases "pcolor p"; simp)+

lemma split_nonempty: "split sep s \<noteq> []"
  by (induction s) (auto split: list.splits)

lemma split_no_sep: "sep \<notin> set s \<Longrightarrow> split sep s = [s]"
  by (induction s) auto

lemma split_append_sep: "sep \<notin> set s \<Longrightarrow> split sep (s @ sep # t) = s # split sep t"
  by (induction s) auto

lemma flushCount_chars:
  assumes "e < 10"
  shows "CHR ''/'' \<notin> set (flushCount e)" "CHR '' '' \<notin> set (flushCount e)"
  using digit_char(3,4)[OF assms] assms by (auto simp: flushCount_def showNat_digit simp del: showNat.simps)

lemma encRow_chars:
  "e + length cs < 10 \<Longrightarrow>
   CHR ''/'' \<notin> set (encRow cs e) \<and> CHR '' '' \<notin> set (encRow cs e)"
proof (induction cs e rule: encRow.induct)
  case (1 e)
  then show ?case using flushCount_chars[of e] by simp
next
  case (2 cells e)
  then show ?case by simp
next
  case (3 p cells e)
  then show ?case
    using flushCount_chars[of e] pieceChar_facts(2,3)[of p] by simp
qed

lemma split_encBoard:
  assumes "rows \<noteq> []" "\<forall>r \<in> set rows. length r = 9"
  shows "split (CHR ''/'') (encBoard rows) = map (\<lambda>r. encRow r 0) rows \<and>
         CHR '' '' \<notin> set (encBoard rows)"
  using assms
proof (induction rows rule: encBoard.induct)
  case 1
  then show ?case by simp
next
  case (2 row)
  then show ?case using encRow_chars[of 0 row] by (simp add: split_no_sep)
next
  case (3 row r rs)
  then show ?case using encRow_chars[of 0 row] by (simp add: split_append_sep)
qed

lemma bindE_assoc: "bindE (bindE m f) g = bindE m (\<lambda>v. bindE (f v) g)"
  by (cases m) simp_all

lemma forEachE_append:
  "forEachE body (as @ bs) s = bindE (forEachE body as s) (forEachE body bs)"
proof (induction as arbitrary: s)
  case Nil
  then show ?case by simp
next
  case (Cons a as)
  then show ?case by (cases "body a s") simp_all
qed

lemma decode_flush:
  assumes "e < 10"
  shows "forEachE (fenChar rnd y) (flushCount e) (board, x, k) = Inr (board, x + int e, k)"
  using digit_char(1,2)[OF assms] assms
  by (simp add: flushCount_def showNat_digit fenChar_def del: showNat.simps)

lemma decode_piece:
  assumes "y < length board" "length (board ! y) = 9" "x < 9"
  shows "fenChar rnd y (pieceChar p) (board, int x, k) =
     Inr (board[y := (board ! y)[x := Some \<lparr>ptype = ptype p, pcolor = pcolor p,
            pid = Some (showNat x @ ''-'' @ showNat y @ ''-'' @ rnd k)\<rparr>]], int x + 1, k + 1)"
  using assms pieceChar_facts[of p]
  by (simp add: fenChar_def cellWrite_def rowWrite_def Let_def del: showNat.simps)

subsection \<open>\<open>fenToBoard\<close> reads back what \<open>boardToFen\<close> wrote\<close>

lemma decode_encRow:
  assumes "y < length board" "length (board ! y) = 9" "x + e + length cs \<le> 9"
  shows "\<exists>row' k'. forEachE (fenChar rnd y) (encRow cs e) (board, int x, k) =
            Inr (board[y := row'], int (x + e + length cs), k') \<and>
          length row' = 9 \<and>
          (\<forall>i < 9. strip (row' ! i) =
             (if x + e \<le> i \<and> i < x + e + length cs
              then (case cs ! (i - (x + e)) of
                      None \<Rightarrow> strip (board ! y ! i)
                    | Some p \<Rightarrow> Some (ptype p, pcolor p))
              else strip (board ! y ! i)))"
  using assms
proof (induction cs e arbitrary: board x k rule: encRow.induct)
  case (1 e)
  have "forEachE (fenChar rnd y) (encRow [] e) (board, int x, k) = Inr (board[y := board ! y], int (x + e + length ([] :: Piece option list)), k)"
    using decode_flush[of e rnd y board "int x" k] 1 by simp
  then show ?case using 1 by (intro exI[of _ "board ! y"] exI[of _ k]) auto
next
  case (2 cells e)
  from 2 have pre: "x + (e + 1) + length cells \<le> 9" by simp
  from "2.IH"[OF "2.prems"(1,2) pre, of k] obtain row' k' where
    run: "forEachE (fenChar rnd y) (encRow cells (e + 1)) (board, int x, k) =
            Inr (board[y := row'], int (x + (e + 1) + length cells), k')"
    and len: "length row' = 9"
    and cellsP: "\<forall>i < 9. strip (row' ! i) =
             (if x + (e + 1) \<le> i \<and> i < x + (e + 1) + length cells
              then (case cells ! (i - (x + (e + 1))) of
                      None \<Rightarrow> strip (board ! y ! i)
                    | Some p \<Rightarrow> Some (ptype p, pcolor p))
              else strip (board ! y ! i))"
    by blast
  have "strip (row' ! i) =
             (if x + e \<le> i \<and> i < x + e + length (None # cells)
              then (case (None # cells) ! (i - (x + e)) of
                      None \<Rightarrow> strip (board ! y ! i)
                    | Some p \<Rightarrow> Some (ptype p, pcolor p))
              else strip (board ! y ! i))" if "i < 9" for i
  proof (cases "i = x + e")
    case True
    then show ?thesis using cellsP that by simp
  next
    case False
    then have "(None # cells) ! (i - (x + e)) = cells ! (i - (x + (e + 1)))" if "x + e \<le> i"
      using that by (simp add: nth_Cons')
    then show ?thesis using cellsP \<open>i < 9\<close> False by auto
  qed
  then show ?case using run len by (intro exI[of _ row'] exI[of _ k']) simp
next
  case (3 p cells e)
  define P where "P = \<lparr>ptype = ptype p, pcolor = pcolor p,
            pid = Some (showNat (x + e) @ ''-'' @ showNat y @ ''-'' @ rnd k)\<rparr>"
  define b1 where "b1 = board[y := (board ! y)[x + e := Some P]]"
  from 3 have xe: "x + e < 9" "e < 10" by simp_all
  have f: "forEachE (fenChar rnd y) (flushCount e) (board, int x, k) = Inr (board, int (x + e), k)"
    using decode_flush[OF xe(2), of rnd y board "int x" k] by simp
  have pc: "fenChar rnd y (pieceChar p) (board, int (x + e), k) = Inr (b1, int (x + e + 1), k + 1)"
    using decode_piece[OF "3.prems"(1,2) xe(1), of rnd p k] by (simp add: b1_def P_def)
  have pre1: "y < length b1" "length (b1 ! y) = 9" "(x + e + 1) + 0 + length cells \<le> 9"
    using 3 by (simp_all add: b1_def)
  from "3.IH"[OF pre1, of "k + 1"] obtain row' k' where
    run: "forEachE (fenChar rnd y) (encRow cells 0) (b1, int (x + e + 1), k + 1) =
            Inr (b1[y := row'], int ((x + e + 1) + 0 + length cells), k')"
    and len: "length row' = 9"
    and cellsP: "\<forall>i < 9. strip (row' ! i) =
             (if (x + e + 1) + 0 \<le> i \<and> i < (x + e + 1) + 0 + length cells
              then (case cells ! (i - ((x + e + 1) + 0)) of
                      None \<Rightarrow> strip (b1 ! y ! i)
                    | Some p \<Rightarrow> Some (ptype p, pcolor p))
              else strip (b1 ! y ! i))"
    by blast
  have over: "b1[y := row'] = board[y := row']" by (simp add: b1_def)
  have whole: "forEachE (fenChar rnd y) (encRow (Some p # cells) e) (board, int x, k) =
      Inr (board[y := row'], int (x + e + length (Some p # cells)), k')"
    using f pc run by (simp add: forEachE_append over)
  have b1: "b1 ! y ! i = (if i = x + e then Some P else board ! y ! i)" if "i < 9" for i
    using that "3.prems"(1,2) by (simp add: b1_def nth_list_update)
  have sP: "strip (Some P) = Some (ptype p, pcolor p)" by (simp add: strip_def P_def)
  have "strip (row' ! i) =
             (if x + e \<le> i \<and> i < x + e + length (Some p # cells)
              then (case (Some p # cells) ! (i - (x + e)) of
                      None \<Rightarrow> strip (board ! y ! i)
                    | Some p \<Rightarrow> Some (ptype p, pcolor p))
              else strip (board ! y ! i))" if i9: "i < 9" for i
  proof (cases "i = x + e")
    case True
    have "strip (row' ! i) = strip (b1 ! y ! i)"
      using cellsP[rule_format, OF i9] True by simp
    then show ?thesis using True b1[OF i9] sP by simp
  next
    case False
    have nth: "(Some p # cells) ! (i - (x + e)) = cells ! (i - (x + e + 1))" if "x + e \<le> i"
      using that False by (simp add: nth_Cons')
    have same: "b1 ! y ! i = board ! y ! i" using b1[OF i9] False by simp
    show ?thesis
    proof (cases "x + e \<le> i \<and> i < x + e + length (Some p # cells)")
      case True
      then have "(x + e + 1) + 0 \<le> i \<and> i < (x + e + 1) + 0 + length cells"
        using False by simp
      then have "strip (row' ! i) = (case cells ! (i - ((x + e + 1) + 0)) of
                      None \<Rightarrow> strip (b1 ! y ! i)
                    | Some p \<Rightarrow> Some (ptype p, pcolor p))"
        using cellsP[rule_format, OF i9] by simp
      then show ?thesis using True nth unfolding same by simp
    next
      case F2: False
      then have "\<not> ((x + e + 1) + 0 \<le> i \<and> i < (x + e + 1) + 0 + length cells)"
        by simp
      then have "strip (row' ! i) = strip (b1 ! y ! i)"
        using cellsP[rule_format, OF i9] by auto
      then show ?thesis using F2 same by auto
    qed
  qed
  then show ?case using whole len by (intro exI[of _ row'] exI[of _ k']) simp
qed


lemma decode_rows:
  assumes "length board = 10" "\<forall>i < 10. length (board ! i) = 9" "y0 + length rs = 10"
    and "\<forall>r \<in> set rs. length r = 9"
  shows "\<exists>board' k'.
     forEachE (\<lambda>(y, rowStr) (board, k).
                   bindE (forEachE (fenChar rnd y) rowStr (board, 0, k))
                     (\<lambda>(board, x, k). Inr (board, k)))
       (enumerate y0 (map (\<lambda>r. encRow r 0) rs)) (board, k) = Inr (board', k') \<and>
     length board' = 10 \<and> (\<forall>i < 10. length (board' ! i) = 9) \<and>
     (\<forall>i < y0. board' ! i = board ! i) \<and>
     (\<forall>j < length rs. \<forall>i < 9. strip (board' ! (y0 + j) ! i) =
         (case rs ! j ! i of
            None \<Rightarrow> strip (board ! (y0 + j) ! i)
          | Some p \<Rightarrow> Some (ptype p, pcolor p)))"
  using assms
proof (induction rs arbitrary: y0 board k)
  case Nil
  then show ?case by simp
next
  case (Cons r rs)
  then have y0: "y0 < length board" "length (board ! y0) = 9" and r: "length r = 9"
    by simp_all
  from decode_encRow[OF y0, of 0 0 r rnd k] r obtain row' k1 where
    run: "forEachE (fenChar rnd y0) (encRow r 0) (board, 0, k) = Inr (board[y0 := row'], 9, k1)"
    and len: "length row' = 9"
    and cells: "\<forall>i < 9. strip (row' ! i) =
        (case r ! i of None \<Rightarrow> strip (board ! y0 ! i) | Some p \<Rightarrow> Some (ptype p, pcolor p))"
    by auto
  define b1 where "b1 = board[y0 := row']"
  have pre: "length b1 = 10" "\<forall>i < 10. length (b1 ! i) = 9" "Suc y0 + length rs = 10"
    "\<forall>r \<in> set rs. length r = 9"
    using Cons.prems len by (auto simp: b1_def nth_list_update)
  from Cons.IH[OF pre, of k1] obtain board' k' where
    rest: "forEachE (\<lambda>(y, rowStr) (board, k).
                   bindE (forEachE (fenChar rnd y) rowStr (board, 0, k))
                     (\<lambda>(board, x, k). Inr (board, k)))
       (enumerate (Suc y0) (map (\<lambda>r. encRow r 0) rs)) (b1, k1) = Inr (board', k')"
    and l': "length board' = 10" "\<forall>i < 10. length (board' ! i) = 9"
    and before: "\<forall>i < Suc y0. board' ! i = b1 ! i"
    and after: "\<forall>j < length rs. \<forall>i < 9. strip (board' ! (Suc y0 + j) ! i) =
         (case rs ! j ! i of
            None \<Rightarrow> strip (b1 ! (Suc y0 + j) ! i)
          | Some p \<Rightarrow> Some (ptype p, pcolor p))"
    by blast
  have whole: "forEachE (\<lambda>(y, rowStr) (board, k).
                   bindE (forEachE (fenChar rnd y) rowStr (board, 0, k))
                     (\<lambda>(board, x, k). Inr (board, k)))
       (enumerate y0 (map (\<lambda>r. encRow r 0) (r # rs))) (board, k) = Inr (board', k')"
    using run rest by (simp add: b1_def)
  have old: "board' ! i = board ! i" if "i < y0" for i
    using that before by (simp add: b1_def)
  have new: "strip (board' ! (y0 + j) ! i) =
         (case (r # rs) ! j ! i of
            None \<Rightarrow> strip (board ! (y0 + j) ! i)
          | Some p \<Rightarrow> Some (ptype p, pcolor p))" if "j < length (r # rs)" "i < 9" for j i
  proof (cases j)
    case 0
    have "board' ! y0 = row'" using before y0(1) by (simp add: b1_def)
    then show ?thesis using cells that(2) unfolding 0 by (simp cong: option.case_cong)
  next
    case (Suc j')
    then have j': "j' < length rs" using that(1) by simp
    have same: "b1 ! (Suc y0 + j') = board ! (Suc y0 + j')" by (simp add: b1_def)
    show ?thesis
      using after[rule_format, OF j' that(2)] unfolding same
      by (simp add: Suc cong: option.case_cong)
  qed
  show ?case using whole l' old new by blast
qed

lemma contents_eqI:
  assumes "length B' = 10" "length B = 10" "\<forall>y < 10. length (B' ! y) = 9" "\<forall>y < 10. length (B ! y) = 9"
    and "\<forall>y < 10. \<forall>i < 9. strip (B' ! y ! i) = strip (B ! y ! i)"
  shows "contents B' = contents B"
  unfolding contents_def
proof (rule nth_equalityI)
  show "length (map (map strip) B') = length (map (map strip) B)" using assms by simp
next
  fix y assume "y < length (map (map strip) B')"
  then have y: "y < 10" using assms(1) by simp
  have "map strip (B' ! y) = map strip (B ! y)"
    using assms(3-5) y by (intro nth_equalityI) auto
  then show "map (map strip) B' ! y = map (map strip) B ! y"
    using y assms(1,2) by simp
qed


text \<open>
  Claim C4. For every 10 by 9 board and every color to move, \<open>boardToFen\<close> returns
  a string, \<open>fenToBoard\<close> of that string returns a 10 by 9 board, and that board has
  on every cell a piece of the same type and color as the input, or no piece where the
  input has none; only the \<open>id\<close> tags, which come from \<open>Math.random()\<close>, differ.
\<close>

theorem fen_round_trip:
  assumes "wf_board B"
  shows "\<exists>fen B'. boardToFen B c = Inr fen \<and> fenToBoard rnd fen = Inr B' \<and>
           wf_board B' \<and> contents B' = contents B"
proof -
  let ?tail = "[if c = RED then CHR ''w'' else CHR ''b''] @ '' - - 0 1''"
  let ?fen = "encBoard B @ CHR '' '' # ?tail"
  have lenB: "length B = 10" and rowsB: "\<forall>i < 10. length (B ! i) = 9"
    using assms by (simp_all add: wf_board_length wf_board_row)
  have rows9: "\<forall>r \<in> set B. length r = 9"
    using assms by (simp add: wf_board_def list_all_iff)
  have ne: "B \<noteq> []" using lenB by auto
  have fen: "boardToFen B c = Inr ?fen"
    using boardToFen_wf[OF assms, of c] by simp
  have sp: "split (CHR ''/'') (encBoard B) = map (\<lambda>r. encRow r 0) B"
    and nosp: "CHR '' '' \<notin> set (encBoard B)"
    using split_encBoard[OF ne rows9] by simp_all
  have first: "split (CHR '' '') ?fen = encBoard B # split (CHR '' '') ?tail"
    using split_append_sep[OF nosp] .
  let ?empty = "replicate 10 (replicate 9 (None :: Piece option))"
  have e: "length ?empty = 10" "\<forall>i < 10. length (?empty ! i) = 9" "0 + length B = 10"
    using lenB by simp_all
  from decode_rows[OF e rows9, of rnd 0] obtain B' k' where
    run: "forEachE (\<lambda>(y, rowStr) (board, k).
                   bindE (forEachE (fenChar rnd y) rowStr (board, 0, k))
                     (\<lambda>(board, x, k). Inr (board, k)))
       (enumerate 0 (map (\<lambda>r. encRow r 0) B)) (?empty, 0) = Inr (B', k')"
    and l': "length B' = 10" "\<forall>i < 10. length (B' ! i) = 9"
    and cells: "\<forall>j < length B. \<forall>i < 9. strip (B' ! (0 + j) ! i) =
         (case B ! j ! i of
            None \<Rightarrow> strip (?empty ! (0 + j) ! i)
          | Some p \<Rightarrow> Some (ptype p, pcolor p))"
    by blast
  have parse: "fenToBoard rnd ?fen = Inr B'"
    unfolding fenToBoard_def Let_def first list.case sp run by simp
  have wf': "wf_board B'" using l' by (simp add: wf_board_def list_all_length)
  have "strip (B' ! y ! i) = strip (B ! y ! i)" if "y < 10" "i < 9" for y i
  proof -
    have "strip (B' ! y ! i) =
         (case B ! y ! i of
            None \<Rightarrow> strip (?empty ! y ! i)
          | Some p \<Rightarrow> Some (ptype p, pcolor p))"
      using cells[rule_format, of y i] that lenB by (simp cong: option.case_cong)
    then show ?thesis using that by (cases "B ! y ! i") (simp_all add: strip_def)
  qed
  then have "contents B' = contents B"
    using contents_eqI[OF l'(1) lenB l'(2) rowsB] by blast
  then show ?thesis using fen parse wf' by blast
qed

theorem fen_round_trip_witness:
  "wf_board exampleBoard \<and>
   boardToFen exampleBoard BLACK = Inr ''3k5/9/9/9/4P4/9/9/9/9/4K4 b - - 0 1'' \<and>
   (\<exists>B'. fenToBoard fixedRandom ''3k5/9/9/9/4P4/9/9/9/9/4K4 b - - 0 1'' = Inr B' \<and>
      wf_board B' \<and> contents B' = contents exampleBoard)"
proof -
  have f: "boardToFen exampleBoard BLACK = Inr ''3k5/9/9/9/4P4/9/9/9/9/4K4 b - - 0 1''"
    by code_simp
  show ?thesis
    using fen_round_trip[OF exampleBoard_wf, of BLACK fixedRandom] exampleBoard_wf f by auto
qed

end
